theory Spec2Isabelle
  imports Main "HOL-Library.Word"
begin

unbundle bit_operations_syntax

section \<open>Bytes, addresses and errors\<close>

text \<open>
  Go's \<open>byte\<close> is an 8-bit word, \<open>uint16\<close> and \<open>uint32\<close> are 16- and 32-bit words whose
  arithmetic wraps. A \<open>[]byte\<close> and a \<open>net.IP\<close> are byte lists; a nil slice is the empty
  list. Slices are modelled by value and their capacity is taken to be their length, so an
  index or a slice bound beyond the length is the runtime panic of the source. Calls of the
  logger have no effect on any value below and are left out.
\<close>

type_synonym byte = "8 word"
type_synonym uint16 = "16 word"
type_synonym uint32 = "32 word"
type_synonym IP = "byte list"

datatype error =
    PacketTooShort
  | UnsupportedIPVersion byte
  | IPv4PacketTooShort nat
  | IPv6PacketTooShort nat
  | IPv4HeaderParseFailed
  | IPv6HeaderParseFailed
  | InvalidIPv4SourceAddress
  | InvalidIPv6SourceAddress
  | InvalidIPv4DestinationAddress
  | InvalidIPv6DestinationAddress
  | UnsupportedPacketType
  | InvalidCIDR
  | RouteNotFound string
  | ErrClosedPipe
  | ConnError

definition IPv4len :: nat where "IPv4len = 4"
definition IPv6len :: nat where "IPv6len = 16"

text \<open>\<open>binary.BigEndian.Uint16\<close> of a two-byte slice, and \<open>PutUint16\<close> at an offset.\<close>

definition Uint16 :: "byte \<Rightarrow> byte \<Rightarrow> uint16" where
  "Uint16 b0 b1 = ucast b1 OR push_bit 8 (ucast b0)"

definition PutUint16 :: "byte list \<Rightarrow> nat \<Rightarrow> uint16 \<Rightarrow> byte list" where
  "PutUint16 b off v = b[off := ucast (drop_bit 8 v), Suc off := ucast v]"

text \<open>The builtin \<open>copy(d[lo:hi], src)\<close>: it copies as many bytes as both sides hold.\<close>

definition copy_slice :: "byte list \<Rightarrow> nat \<Rightarrow> nat \<Rightarrow> byte list \<Rightarrow> byte list" where
  "copy_slice d lo hi src =
     (let n = min (hi - lo) (length src) in take lo d @ take n src @ drop (lo + n) d)"

section \<open>Facts about bytes\<close>

lemma byte_lt: "unat (x :: byte) < 256"
  using unsigned_less [of x, where ?'a = nat] by simp

lemma byte_top_bit: "(v AND 0x80 \<noteq> 0) = (128 \<le> unat v)" for v :: byte
proof -
  have "(v AND 0x80 \<noteq> 0) = bit v 7"
    using bit_iff_and_push_bit_not_eq_0 [of v 7] by simp
  also have "\<dots> = bit (unat v) 7"
    by (simp add: bit_unsigned_iff)
  also have "\<dots> = odd (unat v div 128)"
    by (simp add: bit_iff_odd)
  also have "\<dots> = (128 \<le> unat v)"
  proof (cases "128 \<le> unat v")
    case True
    then have "unat v div 128 = 1" using byte_lt [of v] by linarith
    with True show ?thesis by simp
  next
    case False
    then show ?thesis by simp
  qed
  finally show ?thesis .
qed

lemma byte_shift_left_less: "128 \<le> unat v \<Longrightarrow> unat (push_bit 1 v) < unat v" for v :: byte
proof -
  assume a: "128 \<le> unat v"
  have "unat v * 2 mod 256 = (unat v * 2 - 256) mod 256"
    using a by (simp add: le_mod_geq)
  also have "\<dots> = unat v * 2 - 256" using byte_lt [of v] by simp
  finally show ?thesis using a byte_lt [of v]
    by (simp add: push_bit_eq_mult unat_word_ariths)
qed

section \<open>The routing table (internal/tunnel/router.go)\<close>

datatype RouteType = RouteTypeTUN | RouteTypeInternet | RouteTypeDrop

subsection \<open>Go's package net\<close>

text \<open>
  \<open>net.IPNet\<close> and the methods \<open>GetRoute\<close> calls on it are Go's standard library.
  \<open>To4\<close>, \<open>networkNumberAndMask\<close>, \<open>Contains\<close>, \<open>simpleMaskLength\<close> and
  \<open>IPMask.Size\<close> are modelled after the library's code. \<open>net.ParseCIDR\<close> and
  \<open>IPNet.String\<close> (a parser and a formatter of text) are parameters of the table's
  operations: the table only compares the strings \<open>String\<close> returns.
\<close>

record IPNet =
  IP :: IP
  Mask :: "byte list"

definition isZeros :: "byte list \<Rightarrow> bool" where
  "isZeros p = list_all (\<lambda>b. b = 0) p"

definition To4 :: "IP \<Rightarrow> IP option" where
  "To4 ip =
     (if length ip = IPv4len then Some ip
      else if length ip = IPv6len \<and> isZeros (take 10 ip) \<and> ip ! 10 = 0xff \<and> ip ! 11 = 0xff
        then Some (take 4 (drop 12 ip))
      else None)"

text \<open>\<open>None\<close> stands for the pair of nil slices the library returns.\<close>

definition networkNumberAndMask :: "IPNet \<Rightarrow> (IP \<times> byte list) option" where
  "networkNumberAndMask n =
     (case (case To4 (IP n) of
              Some x \<Rightarrow> Some x
            | None \<Rightarrow> if length (IP n) \<noteq> IPv6len then None else Some (IP n)) of
        None \<Rightarrow> None
      | Some ip \<Rightarrow>
          let m = Mask n in
          if length m = IPv4len then (if length ip \<noteq> IPv4len then None else Some (ip, m))
          else if length m = IPv6len then
            (if length ip = IPv4len then Some (ip, drop 12 m) else Some (ip, m))
          else None)"

fun masked_equal :: "byte list \<Rightarrow> byte list \<Rightarrow> byte list \<Rightarrow> bool" where
  "masked_equal (a # nn) (b # m) (c # ip) =
     (if a AND b \<noteq> c AND b then False else masked_equal nn m ip)"
| "masked_equal nn m ip = True"

definition Contains :: "IPNet \<Rightarrow> IP \<Rightarrow> bool" where
  "Contains n ip =
     (let (nn, m) = (case networkNumberAndMask n of None \<Rightarrow> ([], []) | Some x \<Rightarrow> x);
          ip = (case To4 ip of Some x \<Rightarrow> x | None \<Rightarrow> ip);
          l = length ip
      in if l \<noteq> length nn then False else masked_equal nn m ip)"

function count_ones :: "byte \<Rightarrow> int \<Rightarrow> byte \<times> int" where
  "count_ones v n = (if v AND 0x80 \<noteq> 0 then count_ones (push_bit 1 v) (n + 1) else (v, n))"
  by pat_completeness auto
termination
proof (relation "measure (\<lambda>(v, n). unat v)")
  show "wf (measure (\<lambda>(v :: byte, n :: int). unat v))" by simp
next
  fix v :: byte and n :: int
  assume "v AND 0x80 \<noteq> 0"
  then have "128 \<le> unat v" by (simp only: byte_top_bit)
  then have "unat (push_bit 1 v) < unat v" by (rule byte_shift_left_less)
  then show "((push_bit 1 v, n + 1), v, n) \<in> measure (\<lambda>(v, n). unat v)" by simp
qed

fun simpleMaskLength_loop :: "byte list \<Rightarrow> int \<Rightarrow> int" where
  "simpleMaskLength_loop [] n = n"
| "simpleMaskLength_loop (v # rest) n =
     (if v = 0xff then simpleMaskLength_loop rest (n + 8)
      else
        let (v', n') = count_ones v n in
        if v' \<noteq> 0 then - 1
        else if list_ex (\<lambda>b. b \<noteq> 0) rest then - 1
        else n')"

definition simpleMaskLength :: "byte list \<Rightarrow> int" where
  "simpleMaskLength m = simpleMaskLength_loop m 0"

definition Mask_Size :: "byte list \<Rightarrow> int \<times> int" where
  "Mask_Size m =
     (let ones = simpleMaskLength m; bits = int (length m) * 8
      in if ones = - 1 then (0, 0) else (ones, bits))"

subsection \<open>Router\<close>

record Route =
  Network :: IPNet
  Type :: RouteType

record Router =
  routes :: "Route list"
  ipv4Count :: int
  ipv6Count :: int

text \<open>
  The scan of \<open>AddRoute\<close> and \<open>RemoveRoute\<close> for the first route whose network prints
  as the given string.
\<close>

fun find_route :: "(IPNet \<Rightarrow> string) \<Rightarrow> string \<Rightarrow> Route list \<Rightarrow> nat option" where
  "find_route String key [] = None"
| "find_route String key (route # rest) =
     (if String (Network route) = key then Some 0
      else map_option Suc (find_route String key rest))"

definition AddRoute ::
  "(string \<Rightarrow> IPNet option) \<Rightarrow> (IPNet \<Rightarrow> string) \<Rightarrow> string \<Rightarrow> RouteType \<Rightarrow> Router
    \<Rightarrow> Router \<times> error option" where
  "AddRoute ParseCIDR String cidr routeType r =
     (case ParseCIDR cidr of
        None \<Rightarrow> (r, Some InvalidCIDR)
      | Some network \<Rightarrow>
          (case find_route String (String network) (routes r) of
             Some i \<Rightarrow>
               (r\<lparr>routes := (routes r)[i := (routes r ! i)\<lparr>Type := routeType\<rparr>]\<rparr>, None)
           | None \<Rightarrow>
               let r = r\<lparr>routes := routes r @ [\<lparr>Network = network, Type = routeType\<rparr>]\<rparr>
               in (if To4 (IP network) \<noteq> None then r\<lparr>ipv4Count := ipv4Count r + 1\<rparr>
                   else r\<lparr>ipv6Count := ipv6Count r + 1\<rparr>, None)))"

definition RemoveRoute ::
  "(string \<Rightarrow> IPNet option) \<Rightarrow> (IPNet \<Rightarrow> string) \<Rightarrow> string \<Rightarrow> Router
    \<Rightarrow> Router \<times> error option" where
  "RemoveRoute ParseCIDR String cidr r =
     (case ParseCIDR cidr of
        None \<Rightarrow> (r, Some InvalidCIDR)
      | Some network \<Rightarrow>
          (case find_route String (String network) (routes r) of
             Some i \<Rightarrow>
               let r = r\<lparr>routes := butlast ((routes r)[i := last (routes r)])\<rparr>
               in (if To4 (IP network) \<noteq> None then r\<lparr>ipv4Count := ipv4Count r - 1\<rparr>
                   else r\<lparr>ipv6Count := ipv6Count r - 1\<rparr>, None)
           | None \<Rightarrow> (r, Some (RouteNotFound cidr))))"

text \<open>
  The loop of \<open>GetRoute\<close>: its state is \<open>matchedRoute\<close> (nil at first) and
  \<open>matchedMaskSize\<close>.
\<close>

fun GetRoute_loop :: "IP \<Rightarrow> Route list \<Rightarrow> Route option \<times> int \<Rightarrow> Route option \<times> int" where
  "GetRoute_loop ip [] st = st"
| "GetRoute_loop ip (route # rest) (matchedRoute, matchedMaskSize) =
     (if Contains (Network route) ip then
        let maskSize = fst (Mask_Size (Mask (Network route))) in
        if matchedRoute = None \<or> maskSize > matchedMaskSize
        then GetRoute_loop ip rest (Some route, maskSize)
        else GetRoute_loop ip rest (matchedRoute, matchedMaskSize)
      else GetRoute_loop ip rest (matchedRoute, matchedMaskSize))"

definition GetRoute :: "Router \<Rightarrow> IP \<Rightarrow> RouteType" where
  "GetRoute r ip =
     (case fst (GetRoute_loop ip (routes r) (None, 0)) of
        Some matchedRoute \<Rightarrow> Type matchedRoute
      | None \<Rightarrow> RouteTypeInternet)"

definition ClearRoutes :: "Router \<Rightarrow> Router" where
  "ClearRoutes r = r\<lparr>routes := [], ipv4Count := 0, ipv6Count := 0\<rparr>"

definition addPrivateNetworkRoutes ::
  "(string \<Rightarrow> IPNet option) \<Rightarrow> (IPNet \<Rightarrow> string) \<Rightarrow> Router \<Rightarrow> Router" where
  "addPrivateNetworkRoutes ParseCIDR String r =
     foldl (\<lambda>r (cidr, t). fst (AddRoute ParseCIDR String cidr t r)) r
       [(''10.0.0.0/8'', RouteTypeTUN), (''172.16.0.0/12'', RouteTypeTUN),
        (''192.168.0.0/16'', RouteTypeTUN), (''169.254.0.0/16'', RouteTypeTUN),
        (''fe80::/10'', RouteTypeTUN), (''0.0.0.0/0'', RouteTypeInternet),
        (''::/0'', RouteTypeInternet)]"

definition NewRouter :: "(string \<Rightarrow> IPNet option) \<Rightarrow> (IPNet \<Rightarrow> string) \<Rightarrow> Router" where
  "NewRouter ParseCIDR String =
     addPrivateNetworkRoutes ParseCIDR String \<lparr>routes = [], ipv4Count = 0, ipv6Count = 0\<rparr>"

text \<open>A sequence of calls on a router, for statements about every reachable table.\<close>

datatype RouterCall =
    CallAddRoute string RouteType
  | CallRemoveRoute string
  | CallClearRoutes

fun run_calls ::
  "(string \<Rightarrow> IPNet option) \<Rightarrow> (IPNet \<Rightarrow> string) \<Rightarrow> RouterCall list \<Rightarrow> Router \<Rightarrow> Router" where
  "run_calls ParseCIDR String [] r = r"
| "run_calls ParseCIDR String (CallAddRoute cidr t # cs) r =
     run_calls ParseCIDR String cs (fst (AddRoute ParseCIDR String cidr t r))"
| "run_calls ParseCIDR String (CallRemoveRoute cidr # cs) r =
     run_calls ParseCIDR String cs (fst (RemoveRoute ParseCIDR String cidr r))"
| "run_calls ParseCIDR String (CallClearRoutes # cs) r =
     run_calls ParseCIDR String cs (ClearRoutes r)"

section \<open>Packets (internal/tunnel/packet.go)\<close>

datatype PacketType = PacketTypeIPv4 | PacketTypeIPv6 | PacketTypeUnknown

record Packet =
  Data :: "byte list"
  Source :: IP
  Destination :: IP
  Protocol :: int
  Type :: PacketType

definition IPv4Version :: byte where "IPv4Version = 4"
definition IPv6Version :: byte where "IPv6Version = 6"

subsection \<open>The header readers of golang.org/x/net\<close>

text \<open>
  \<open>ipv4.ParseHeader\<close> and \<open>ipv6.ParseHeader\<close> belong to the library golang.org/x/net
  (v0.30.0 in go.mod). They are modelled to the extent this package reads their result:
  when they fail, and the source address, destination address and protocol number they
  return. \<open>net.IPv4\<close> builds the 16-byte IPv4-in-IPv6 form of an address.
\<close>

definition ipv4_HeaderLen :: nat where "ipv4_HeaderLen = 20"
definition ipv6_HeaderLen :: nat where "ipv6_HeaderLen = 40"

definition v4InV6Prefix :: "byte list" where
  "v4InV6Prefix = [0, 0, 0, 0, 0, 0, 0, 0, 0, 0, 0xff, 0xff]"

definition net_IPv4 :: "byte \<Rightarrow> byte \<Rightarrow> byte \<Rightarrow> byte \<Rightarrow> IP" where
  "net_IPv4 a b c d = v4InV6Prefix @ [a, b, c, d]"

definition ipv4_ParseHeader :: "byte list \<Rightarrow> (IP \<times> IP \<times> int) option" where
  "ipv4_ParseHeader b =
     (if length b < ipv4_HeaderLen then None
      else let hdrlen = unat (push_bit 2 (ucast (b ! 0 AND 0x0f) :: uint32)) in
        if length b < hdrlen then None
        else Some (net_IPv4 (b ! 12) (b ! 13) (b ! 14) (b ! 15),
                   net_IPv4 (b ! 16) (b ! 17) (b ! 18) (b ! 19),
                   uint (b ! 9)))"

definition ipv6_ParseHeader :: "byte list \<Rightarrow> (IP \<times> IP \<times> int) option" where
  "ipv6_ParseHeader b =
     (if length b < ipv6_HeaderLen then None
      else Some (take 16 (drop 8 b), take 16 (drop 24 b), uint (b ! 6)))"

subsection \<open>ParsePacket\<close>

definition parseIPv4Packet :: "byte list \<Rightarrow> error + Packet" where
  "parseIPv4Packet data =
     (if length data < ipv4_HeaderLen then Inl (IPv4PacketTooShort (length data))
      else case ipv4_ParseHeader data of
          None \<Rightarrow> Inl IPv4HeaderParseFailed
        | Some (src, dst, proto) \<Rightarrow>
            Inr \<lparr>Data = data, Source = src, Destination = dst, Protocol = proto,
                 Type = PacketTypeIPv4\<rparr>)"

definition parseIPv6Packet :: "byte list \<Rightarrow> error + Packet" where
  "parseIPv6Packet data =
     (if length data < ipv6_HeaderLen then Inl (IPv6PacketTooShort (length data))
      else case ipv6_ParseHeader data of
          None \<Rightarrow> Inl IPv6HeaderParseFailed
        | Some (src, dst, nxt) \<Rightarrow>
            Inr \<lparr>Data = data, Source = src, Destination = dst, Protocol = nxt,
                 Type = PacketTypeIPv6\<rparr>)"

definition ParsePacket :: "byte list \<Rightarrow> error + Packet" where
  "ParsePacket data =
     (if length data < 1 then Inl PacketTooShort
      else let version = drop_bit 4 (data ! 0) AND 0x0F in
        if version = IPv4Version then parseIPv4Packet data
        else if version = IPv6Version then parseIPv6Packet data
        else Inl (UnsupportedIPVersion version))"

subsection \<open>ModifyTTL\<close>

text \<open>
  The receiver is mutated in place; the model returns the packet after the call beside the
  boolean. \<open>None\<close> is a runtime panic (an index beyond the buffer).
\<close>

definition ModifyTTL :: "Packet \<Rightarrow> (Packet \<times> bool) option" where
  "ModifyTTL p =
     (if Type p = PacketTypeIPv4 then
        if length (Data p) \<le> 8 then None
        else if Data p ! 8 \<le> 1 then Some (p, False)
        else
          let d = (Data p)[8 := Data p ! 8 - 1] in
          if length d < 12 then None
          else
            let checksum = Uint16 (d ! 10) (d ! 11);
                checksum = checksum + 0x0100;
                checksum = (if checksum \<le> 0x00FF then checksum + 1 else checksum)
            in Some (p\<lparr>Data := PutUint16 d 10 checksum\<rparr>, True)
      else if Type p = PacketTypeIPv6 then
        if length (Data p) \<le> 7 then None
        else if Data p ! 7 \<le> 1 then Some (p, False)
        else Some (p\<lparr>Data := (Data p)[7 := Data p ! 7 - 1]\<rparr>, True)
      else Some (p, False))"

subsection \<open>Address replacement and the incremental checksum\<close>

text \<open>
  The loop of \<open>recalculateIPv4Checksum\<close> walks both addresses two bytes at a time and
  accumulates in a \<open>uint32\<close>; an address that ends inside a two-byte step is a slice
  panic.
\<close>

fun adjustment_loop :: "byte list \<Rightarrow> byte list \<Rightarrow> uint32 \<Rightarrow> uint32 option" where
  "adjustment_loop [] newAddr adjustment = Some adjustment"
| "adjustment_loop (o0 # o1 # oldAddr) (n0 # n1 # newAddr) adjustment =
     adjustment_loop oldAddr newAddr
       (adjustment + ucast (Uint16 o0 o1) + (ucast (Uint16 n0 n1) XOR 0xFFFF))"
| "adjustment_loop oldAddr newAddr adjustment = None"

definition recalculateIPv4Checksum ::
  "byte list \<Rightarrow> byte list \<Rightarrow> byte list \<Rightarrow> byte list option" where
  "recalculateIPv4Checksum packet oldAddr newAddr =
     (if length packet < 12 then None
      else
        let oldChecksum = Uint16 (packet ! 10) (packet ! 11) in
        case adjustment_loop oldAddr newAddr 0 of
          None \<Rightarrow> None
        | Some adjustment \<Rightarrow>
            let adjustment = (adjustment AND 0xFFFF) + drop_bit 16 adjustment;
                newChecksum = (ucast (adjustment + ucast oldChecksum) :: uint16)
            in Some (PutUint16 packet 10 newChecksum))"

definition ReplaceSourceAddress :: "Packet \<Rightarrow> IP \<Rightarrow> (Packet \<times> error option) option" where
  "ReplaceSourceAddress p newSource =
     (if Type p = PacketTypeIPv4 then
        if length newSource \<noteq> IPv4len then Some (p, Some InvalidIPv4SourceAddress)
        else if length (Data p) < 16 then None
        else
          let oldSource = take IPv4len (drop 12 (Data p));
              d = copy_slice (Data p) 12 16 newSource
          in case recalculateIPv4Checksum d oldSource newSource of
               None \<Rightarrow> None
             | Some d' \<Rightarrow> Some (p\<lparr>Data := d', Source := newSource\<rparr>, None)
      else if Type p = PacketTypeIPv6 then
        if length newSource \<noteq> IPv6len then Some (p, Some InvalidIPv6SourceAddress)
        else if length (Data p) < 24 then None
        else Some (p\<lparr>Data := copy_slice (Data p) 8 24 newSource, Source := newSource\<rparr>, None)
      else Some (p, Some UnsupportedPacketType))"

definition ReplaceDestinationAddress :: "Packet \<Rightarrow> IP \<Rightarrow> (Packet \<times> error option) option" where
  "ReplaceDestinationAddress p newDest =
     (if Type p = PacketTypeIPv4 then
        if length newDest \<noteq> IPv4len then Some (p, Some InvalidIPv4DestinationAddress)
        else if length (Data p) < 20 then None
        else
          let oldDest = take IPv4len (drop 16 (Data p));
              d = copy_slice (Data p) 16 20 newDest
          in case recalculateIPv4Checksum d oldDest newDest of
               None \<Rightarrow> None
             | Some d' \<Rightarrow> Some (p\<lparr>Data := d', Destination := newDest\<rparr>, None)
      else if Type p = PacketTypeIPv6 then
        if length newDest \<noteq> IPv6len then Some (p, Some InvalidIPv6DestinationAddress)
        else if length (Data p) < 40 then None
        else Some (p\<lparr>Data := copy_slice (Data p) 24 40 newDest, Destination := newDest\<rparr>, None)
      else Some (p, Some UnsupportedPacketType))"

subsection \<open>The reference: a full recomputation of the header checksum\<close>

text \<open>
  The source never recomputes a checksum from scratch. The reference below follows the
  words of the specification ("an independent full one's-complement recomputation of the
  header"), as RFC 1071 describes it: the header is the first \<open>4 * IHL\<close> bytes, the
  checksum field (offsets 10 and 11) counts as zero, the big-endian 16-bit words are added
  up, the carries above bit 15 are folded back in until none is left, and the result is
  complemented.
\<close>

fun be_words :: "byte list \<Rightarrow> nat list" where
  "be_words (a # b # xs) = (256 * unat a + unat b) # be_words xs"
| "be_words [a] = [256 * unat a]"
| "be_words [] = []"

function fold16 :: "nat \<Rightarrow> nat" where
  "fold16 n = (if n < 65536 then n else fold16 (n mod 65536 + n div 65536))"
  by pat_completeness auto
termination
proof (relation "measure id")
  show "wf (measure id)" by simp
next
  fix n :: nat
  assume a: "\<not> n < 65536"
  define m where "m = n div 65536"
  define r where "r = n mod 65536"
  have n: "n = 65536 * m + r" by (simp add: m_def r_def)
  have "1 \<le> m" using a by (simp add: m_def)
  then have "r + m < n" using n by linarith
  then show "(n mod 65536 + n div 65536, n) \<in> measure id"
    by (simp add: m_def r_def)
qed

declare fold16.simps [simp del]

definition ipv4_header_len :: "byte list \<Rightarrow> nat" where
  "ipv4_header_len d = 4 * unat (d ! 0 AND 0x0F)"

definition ipv4_header :: "byte list \<Rightarrow> byte list" where
  "ipv4_header d = take (ipv4_header_len d) d"

definition ipv4_full_checksum :: "byte list \<Rightarrow> uint16" where
  "ipv4_full_checksum d =
     of_nat (65535 - fold16 (sum_list (be_words ((ipv4_header d)[10 := 0, 11 := 0]))))"

definition header_checksum :: "byte list \<Rightarrow> uint16" where
  "header_checksum d = Uint16 (d ! 10) (d ! 11)"

text \<open>
  A receiver's check (RFC 1071): the one's-complement sum over the whole header, checksum
  field included, is \<open>0xFFFF\<close>.
\<close>

definition ipv4_checksum_verifies :: "byte list \<Rightarrow> bool" where
  "ipv4_checksum_verifies d = (fold16 (sum_list (be_words (ipv4_header d))) = 65535)"


section \<open>The secure transport (package cipher)\<close>

text \<open>
  A \<open>TLSConn\<close> wraps a \<open>*tls.Conn\<close>. The model keeps the \<open>closed\<close> flag and, for the
  wrapped connection, the list of calls made on it so far; what such a call returns is
  an argument of the method that makes it. The three locks do not appear: the methods are
  read here as called one after the other.
\<close>

datatype ConnCall = ConnRead | ConnWrite | ConnClose

record TLSConn =
  closed :: bool
  conn :: "ConnCall list"

definition Read :: "nat \<times> error option \<Rightarrow> TLSConn \<Rightarrow> TLSConn \<times> (nat \<times> error option)" where
  "Read io t =
     (if closed t then (t, (0, Some ErrClosedPipe))
      else (t\<lparr>conn := conn t @ [ConnRead]\<rparr>, io))"

definition Write :: "nat \<times> error option \<Rightarrow> TLSConn \<Rightarrow> TLSConn \<times> (nat \<times> error option)" where
  "Write io t =
     (if closed t then (t, (0, Some ErrClosedPipe))
      else (t\<lparr>conn := conn t @ [ConnWrite]\<rparr>, io))"

definition Close :: "error option \<Rightarrow> TLSConn \<Rightarrow> TLSConn \<times> error option" where
  "Close io t =
     (if closed t then (t, None)
      else (t\<lparr>closed := True, conn := conn t @ [ConnClose]\<rparr>, io))"

text \<open>A sequence of calls on one connection, with the results in order.\<close>

datatype TLSCall =
    CallRead "nat \<times> error option"
  | CallWrite "nat \<times> error option"
  | CallClose "error option"

datatype TLSResult = IOResult "nat \<times> error option" | CloseResult "error option"

fun run_conn :: "TLSCall list \<Rightarrow> TLSConn \<Rightarrow> TLSConn \<times> TLSResult list" where
  "run_conn [] t = (t, [])"
| "run_conn (CallRead io # cs) t =
     (let (t1, res) = Read io t; (t2, rs) = run_conn cs t1 in (t2, IOResult res # rs))"
| "run_conn (CallWrite io # cs) t =
     (let (t1, res) = Write io t; (t2, rs) = run_conn cs t1 in (t2, IOResult res # rs))"
| "run_conn (CallClose io # cs) t =
     (let (t1, res) = Close io t; (t2, rs) = run_conn cs t1 in (t2, CloseResult res # rs))"

text \<open>What the specification asks of a call made on a closed connection.\<close>

fun closed_result :: "TLSCall \<Rightarrow> TLSResult" where
  "closed_result (CallRead io) = IOResult (0, Some ErrClosedPipe)"
| "closed_result (CallWrite io) = IOResult (0, Some ErrClosedPipe)"
| "closed_result (CallClose io) = CloseResult None"

section \<open>The client's reconnection loop (internal/tunnel/client.go)\<close>

text \<open>
  \<open>runMainLoop\<close> runs beside other goroutines. The model is the loop alone, with the
  fields of the client it reads and writes and the state of the channel \<open>stopCh\<close> (open,
  or closed by \<open>Stop\<close>). It is driven by a script of what the surroundings answer in each
  round:
  \<^item> whether \<open>connectToServer\<close> fails (at the dial, which leaves \<open>c.conn\<close> alone, or at
    the handshake, which sets it to nil) or succeeds;
  \<^item> which case a \<open>select\<close> takes: the timer, or \<open>stopCh\<close>. A receive from \<open>stopCh\<close> is
    ready only once the channel is closed (nothing else sends on it while the loop runs):
    when the channel is still open, taking that case means that another goroutine has
    called \<open>Stop\<close>, whose writes the model then makes;
  \<^item> how a connected phase ends: a pump reports an error (and before the loop reads
    \<open>c.isRunning\<close> another goroutine has called \<open>Stop\<close>, or none has), or \<open>stopCh\<close> is
    taken.
  When the loop returns, its deferred function runs \<open>select\<close> with a send on \<open>stopCh\<close> and
  a default case. On an open channel the send is delivered to a waiting receiver or
  skipped, and the client is unchanged; on a closed channel a send panics.

  The result is the client when the loop ends, the number of calls of
  \<open>connectToServer\<close> it made, and whether it ended by returning or by a panic; \<open>None\<close>
  means the script ended while the loop was still running.
\<close>

record ClientConfig =
  Reconnect :: bool
  ReconnectDelay :: int
  MaxRetries :: int

datatype Chan = ChanOpen | ChanClosed

record Client =
  config :: ClientConfig
  conn :: "TLSConn option"
  isRunning :: bool
  stopCh :: Chan
  reconnect :: bool
  retries :: int

datatype Outcome = Returned | Panicked

datatype Wait = TimerFired | StopSignalled
datatype ConnectError = DialFailed | HandshakeFailed
datatype PumpEnd = PumpError bool Wait | PumpStopSignalled
datatype Attempt = ConnectFails ConnectError Wait | ConnectSucceeds PumpEnd

definition NewClient :: "ClientConfig \<Rightarrow> Client" where
  "NewClient cfg =
     \<lparr>config = cfg, conn = None, isRunning = False, stopCh = ChanOpen,
      reconnect = Reconnect cfg, retries = 0\<rparr>"

text \<open>
  \<open>Stop\<close>: nothing when the client is not running; otherwise it clears \<open>isRunning\<close>, closes
  \<open>stopCh\<close> (closing a closed channel panics), closes the connection if there is one and
  sets it to nil. Its return value is always nil; the model returns the client and
  whether the call returned or panicked.
\<close>

definition Stop :: "Client \<Rightarrow> Client \<times> Outcome" where
  "Stop c =
     (if \<not> isRunning c then (c, Returned)
      else
        let c = c\<lparr>isRunning := False\<rparr> in
        if stopCh c = ChanClosed then (c, Panicked)
        else
          let c = c\<lparr>stopCh := ChanClosed\<rparr>;
              c = (case conn c of
                     Some t \<Rightarrow> c\<lparr>conn := None\<rparr>
                   | None \<Rightarrow> c)
          in (c, Returned))"

text \<open>The loop returns: its deferred send on \<open>stopCh\<close> runs.\<close>

definition loop_returns :: "Client \<Rightarrow> nat \<Rightarrow> (Client \<times> nat \<times> Outcome) option" where
  "loop_returns c n = Some (c, n, if stopCh c = ChanClosed then Panicked else Returned)"

text \<open>
  A \<open>select\<close> takes its \<open>stopCh\<close> case, and the loop returns: the channel was closed
  already, or \<open>Stop\<close> is called now.
\<close>

definition stop_case :: "Client \<Rightarrow> nat \<Rightarrow> (Client \<times> nat \<times> Outcome) option" where
  "stop_case c n =
     (if stopCh c = ChanClosed then loop_returns c n
      else case Stop c of
          (c', Panicked) \<Rightarrow> Some (c', n, Panicked)
        | (c', Returned) \<Rightarrow> loop_returns c' n)"

fun runMainLoop :: "Attempt list \<Rightarrow> Client \<Rightarrow> nat \<Rightarrow> (Client \<times> nat \<times> Outcome) option" where
  "runMainLoop [] c n = (if isRunning c then None else loop_returns c n)"
| "runMainLoop (a # script) c n =
     (if \<not> isRunning c then loop_returns c n
      else case a of
        ConnectFails e w \<Rightarrow>
          let c = (if e = HandshakeFailed then c\<lparr>conn := None\<rparr> else c) in
          if \<not> reconnect c \<or> (MaxRetries (config c) > 0 \<and> retries c \<ge> MaxRetries (config c))
          then loop_returns (c\<lparr>isRunning := False\<rparr>) (Suc n)
          else
            let c = c\<lparr>retries := retries c + 1\<rparr> in
            (case w of
               TimerFired \<Rightarrow> runMainLoop script c (Suc n)
             | StopSignalled \<Rightarrow> stop_case c (Suc n))
      | ConnectSucceeds pe \<Rightarrow>
          let c = c\<lparr>conn := Some \<lparr>closed = False, conn = []\<rparr>, retries := 0\<rparr> in
          (case pe of
             PumpStopSignalled \<Rightarrow> stop_case c (Suc n)
           | PumpError stopped w \<Rightarrow>
               (case (if stopped then Stop c else (c, Returned)) of
                  (c, Panicked) \<Rightarrow> Some (c, Suc n, Panicked)
                | (c, Returned) \<Rightarrow>
                    let c = (case conn c of
                               Some t \<Rightarrow> c\<lparr>conn := None\<rparr>
                             | None \<Rightarrow> c)
                    in if \<not> isRunning c then loop_returns c (Suc n)
                       else if reconnect c then
                         (case w of
                            TimerFired \<Rightarrow> runMainLoop script c (Suc n)
                          | StopSignalled \<Rightarrow> stop_case c (Suc n))
                       else loop_returns (c\<lparr>isRunning := False\<rparr>) (Suc n))))"

section \<open>Notions of the specification\<close>

text \<open>
  The mask length of a route as \<open>GetRoute\<close> reads it, and what the specification calls
  the longest-prefix match: the route at index \<open>i\<close> contains the address, no route that
  contains it has a longer mask, and every earlier route that contains it has a strictly
  shorter one (of several routes with the longest mask, the first scanned).
\<close>

definition maskSize :: "Route \<Rightarrow> int" where
  "maskSize route = fst (Mask_Size (Mask (Network route)))"

definition best_match :: "IP \<Rightarrow> Route list \<Rightarrow> nat \<Rightarrow> bool" where
  "best_match ip rs i =
     (i < length rs \<and> Contains (Network (rs ! i)) ip \<and>
      (\<forall>j < length rs. Contains (Network (rs ! j)) ip \<longrightarrow>
         maskSize (rs ! j) \<le> maskSize (rs ! i) \<and> (j < i \<longrightarrow> maskSize (rs ! j) < maskSize (rs ! i))))"

text \<open>The prefixes of a table, as the strings \<open>AddRoute\<close> and \<open>RemoveRoute\<close> compare.\<close>

definition prefixes :: "(IPNet \<Rightarrow> string) \<Rightarrow> Router \<Rightarrow> string list" where
  "prefixes String r = map (String \<circ> Network) (routes r)"

section \<open>Sample inputs\<close>

text \<open>
  A 20-byte IPv4 header from 10.0.0.1 to 10.0.0.99 (TTL 64, protocol 6) with its correct
  checksum \<open>0x6681\<close>; the same header with TTL 1; a header from 10.0.0.1 to 10.0.0.2
  whose correct checksum is \<open>0xFEFF\<close>; and a 40-byte IPv6 header with hop limit 64 or 1.
\<close>

definition v4_sample :: "byte list" where
  "v4_sample = [0x45, 0x00, 0x00, 0x14, 0x00, 0x00, 0x00, 0x00, 0x40, 0x06, 0x66, 0x81,
                0x0A, 0x00, 0x00, 0x01, 0x0A, 0x00, 0x00, 0x63]"

definition v4_expired :: "byte list" where
  "v4_expired = [0x45, 0x00, 0x00, 0x14, 0x00, 0x00, 0x00, 0x00, 0x01, 0x06, 0xA5, 0x81,
                 0x0A, 0x00, 0x00, 0x01, 0x0A, 0x00, 0x00, 0x63]"

definition v4_corner :: "byte list" where
  "v4_corner = [0x45, 0x00, 0x00, 0x14, 0x67, 0xE2, 0x00, 0x00, 0x40, 0x06, 0xFE, 0xFF,
                0x0A, 0x00, 0x00, 0x01, 0x0A, 0x00, 0x00, 0x02]"

definition v6_sample :: "byte \<Rightarrow> byte list" where
  "v6_sample hopLimit =
     [0x60, 0, 0, 0, 0, 0, 0x06, hopLimit,
      0xfe, 0x80, 0, 0, 0, 0, 0, 0, 0, 0, 0, 0, 0, 0, 0, 1,
      0xfe, 0x80, 0, 0, 0, 0, 0, 0, 0, 0, 0, 0, 0, 0, 0, 2]"

definition sample_packet :: "byte list \<Rightarrow> PacketType \<Rightarrow> Packet" where
  "sample_packet d t =
     (if t = PacketTypeIPv4 then
        \<lparr>Data = d, Source = net_IPv4 (d ! 12) (d ! 13) (d ! 14) (d ! 15),
         Destination = net_IPv4 (d ! 16) (d ! 17) (d ! 18) (d ! 19),
         Protocol = uint (d ! 9), Type = PacketTypeIPv4\<rparr>
      else
        \<lparr>Data = d, Source = take 16 (drop 8 d), Destination = take 16 (drop 24 d),
         Protocol = uint (d ! 6), Type = PacketTypeIPv6\<rparr>)"

text \<open>
  The sample headers after \<open>ModifyTTL\<close>, and the first after \<open>ReplaceSourceAddress\<close> with
  10.0.0.2, after \<open>ReplaceSourceAddress\<close> with its own source 10.0.0.1, and after
  \<open>ReplaceDestinationAddress\<close> with 10.0.0.100; the first sample with a stale checksum
  field; and a buffer whose header-length field says 8 bytes, with the
  checksum of those 8 bytes at offsets 10 and 11.
\<close>

definition v4_sample_after_ttl :: "byte list" where
  "v4_sample_after_ttl = [0x45, 0x00, 0x00, 0x14, 0x00, 0x00, 0x00, 0x00, 0x3F, 0x06, 0x67, 0x81,
                0x0A, 0x00, 0x00, 0x01, 0x0A, 0x00, 0x00, 0x63]"

definition v4_corner_after_ttl :: "byte list" where
  "v4_corner_after_ttl = [0x45, 0x00, 0x00, 0x14, 0x67, 0xE2, 0x00, 0x00, 0x3F, 0x06, 0xFF, 0xFF,
                0x0A, 0x00, 0x00, 0x01, 0x0A, 0x00, 0x00, 0x02]"

definition v4_sample_after_nat :: "byte list" where
  "v4_sample_after_nat = [0x45, 0x00, 0x00, 0x14, 0x00, 0x00, 0x00, 0x00, 0x40, 0x06, 0x66, 0x7F,
                0x0A, 0x00, 0x00, 0x02, 0x0A, 0x00, 0x00, 0x63]"

definition v4_sample_after_dnat :: "byte list" where
  "v4_sample_after_dnat = [0x45, 0x00, 0x00, 0x14, 0x00, 0x00, 0x00, 0x00, 0x40, 0x06, 0x66, 0x7F,
                0x0A, 0x00, 0x00, 0x01, 0x0A, 0x00, 0x00, 0x64]"

definition v4_sample_after_self :: "byte list" where
  "v4_sample_after_self = [0x45, 0x00, 0x00, 0x14, 0x00, 0x00, 0x00, 0x00, 0x40, 0x06, 0x66, 0x80,
                0x0A, 0x00, 0x00, 0x01, 0x0A, 0x00, 0x00, 0x63]"

definition v4_stale :: "byte list" where
  "v4_stale = [0x45, 0x00, 0x00, 0x14, 0x00, 0x00, 0x00, 0x00, 0x40, 0x06, 0x00, 0x00,
               0x0A, 0x00, 0x00, 0x01, 0x0A, 0x00, 0x00, 0x63]"

definition v4_stale_after_ttl :: "byte list" where
  "v4_stale_after_ttl = [0x45, 0x00, 0x00, 0x14, 0x00, 0x00, 0x00, 0x00, 0x3F, 0x06, 0x01, 0x00,
               0x0A, 0x00, 0x00, 0x01, 0x0A, 0x00, 0x00, 0x63]"

definition v4_short_header :: "byte list" where
  "v4_short_header = [0x42, 0x00, 0x00, 0x14, 0x00, 0x00, 0x00, 0x00, 0x40, 0x06, 0xBD, 0xEB,
               0x0A, 0x00, 0x00, 0x01, 0x0A, 0x00, 0x00, 0x63]"

definition v4_short_header_after_ttl :: "byte list" where
  "v4_short_header_after_ttl = [0x42, 0x00, 0x00, 0x14, 0x00, 0x00, 0x00, 0x00, 0x3F, 0x06, 0xBE, 0xEB,
               0x0A, 0x00, 0x00, 0x01, 0x0A, 0x00, 0x00, 0x63]"

text \<open>
  The networks \<open>net.ParseCIDR\<close> returns for 10.0.0.0/8 and 0.0.0.0/0, and values of the
  two library parameters that agree with the library on these two networks.
\<close>

definition net_10_8 :: IPNet where
  "net_10_8 = \<lparr>IP = [10, 0, 0, 0], Mask = [0xff, 0, 0, 0]\<rparr>"

definition net_0_0 :: IPNet where
  "net_0_0 = \<lparr>IP = [0, 0, 0, 0], Mask = [0, 0, 0, 0]\<rparr>"

definition sample_ParseCIDR :: "string \<Rightarrow> IPNet option" where
  "sample_ParseCIDR s =
     (if s = ''10.0.0.0/8'' then Some net_10_8
      else if s = ''0.0.0.0/0'' then Some net_0_0
      else None)"

definition sample_String :: "IPNet \<Rightarrow> string" where
  "sample_String n =
     (if n = net_10_8 then ''10.0.0.0/8''
      else if n = net_0_0 then ''0.0.0.0/0''
      else ''<nil>'')"

definition empty_router :: Router where
  "empty_router = \<lparr>routes = [], ipv4Count = 0, ipv6Count = 0\<rparr>"

definition sample_table :: Router where
  "sample_table = run_calls sample_ParseCIDR sample_String
     [CallAddRoute ''10.0.0.0/8'' RouteTypeTUN, CallAddRoute ''0.0.0.0/0'' RouteTypeInternet]
     (ClearRoutes empty_router)"

text \<open>A client as \<open>Connect\<close> leaves it when it starts the loop, with at most two retries.\<close>

definition running_client :: Client where
  "running_client =
     (NewClient \<lparr>Reconnect = True, ReconnectDelay = 5, MaxRetries = 2\<rparr>)\<lparr>isRunning := True\<rparr>"

section \<open>Parsing\<close>

lemma byte_and15: "unat ((x :: byte) AND 0x0F) = unat x mod 16"
proof -
  have "(x AND 0x0F) = take_bit 4 x"
    by (simp add: take_bit_eq_mask mask_eq_exp_minus_1)
  then show ?thesis by (simp add: unsigned_take_bit_eq take_bit_eq_mod unat_mod)
qed

lemma byte_drop4: "unat (drop_bit 4 (x :: byte)) = unat x div 16"
  by (simp add: unsigned_drop_bit_eq drop_bit_eq_div unat_div)

lemma byte_drop4_and: "drop_bit 4 (x :: byte) AND 0x0F = drop_bit 4 x"
proof (rule unsigned_word_eqI [where ?'a = nat])
  show "unat (drop_bit 4 x AND 0x0F) = unat (drop_bit 4 x)"
    using byte_lt [of x] by (simp add: byte_and15 byte_drop4)
qed

lemma ipv4_hdrlen_eq:
  "unat (push_bit 2 (ucast (x AND 0x0f) :: uint32)) = 4 * unat ((x :: byte) AND 0x0F)"
proof -
  have "unat (x AND 0x0F) < 16" by (simp add: byte_and15)
  then show ?thesis
    by (simp add: push_bit_eq_mult unat_word_ariths unsigned_ucast_eq take_bit_eq_mod)
qed

lemmas parse_defs =
  ParsePacket_def parseIPv4Packet_def parseIPv6Packet_def ipv4_ParseHeader_def
  ipv6_ParseHeader_def ipv4_HeaderLen_def ipv6_HeaderLen_def IPv4Version_def IPv6Version_def

text \<open>What a successful parse tells about the buffer.\<close>

lemma ParsePacket_Inr:
  assumes "ParsePacket data = Inr p"
  shows "Data p = data \<and>
         ((Type p = PacketTypeIPv4 \<and> drop_bit 4 (data ! 0) = 4 \<and> 20 \<le> length data
             \<and> ipv4_header_len data \<le> length data) \<or>
          (Type p = PacketTypeIPv6 \<and> drop_bit 4 (data ! 0) = 6 \<and> 40 \<le> length data))"
  using assms
  by (auto simp: parse_defs byte_drop4_and Let_def ipv4_hdrlen_eq ipv4_header_len_def
      split: if_splits option.splits)

lemma parse_v4_sample: "ParsePacket v4_sample = Inr (sample_packet v4_sample PacketTypeIPv4)"
  by (simp add: parse_defs v4_sample_def sample_packet_def)

lemma parse_v4_expired: "ParsePacket v4_expired = Inr (sample_packet v4_expired PacketTypeIPv4)"
  by (simp add: parse_defs v4_expired_def sample_packet_def)

lemma parse_v4_corner: "ParsePacket v4_corner = Inr (sample_packet v4_corner PacketTypeIPv4)"
  by (simp add: parse_defs v4_corner_def sample_packet_def)

lemma parse_v6_sample:
  "ParsePacket (v6_sample h) = Inr (sample_packet (v6_sample h) PacketTypeIPv6)"
  by (simp add: parse_defs v6_sample_def sample_packet_def)

text \<open>
  Claim C8. \<open>ParsePacket\<close> fails on the empty buffer (too short), fails with the
  unsupported-version error when the top nibble of the first byte is neither 4 nor 6,
  fails with the too-short error of the version on a version-4 buffer of fewer than 20
  bytes and on a version-6 buffer of fewer than 40 bytes, and when it succeeds the type
  tag of the packet is the one of the version nibble.
\<close>

theorem ParsePacket_rejects:
  "(data = [] \<longrightarrow> ParsePacket data = Inl PacketTooShort) \<and>
   (data \<noteq> [] \<and> drop_bit 4 (data ! 0) \<noteq> 4 \<and> drop_bit 4 (data ! 0) \<noteq> 6 \<longrightarrow>
      ParsePacket data = Inl (UnsupportedIPVersion (drop_bit 4 (data ! 0)))) \<and>
   (data \<noteq> [] \<and> drop_bit 4 (data ! 0) = 4 \<and> length data < 20 \<longrightarrow>
      ParsePacket data = Inl (IPv4PacketTooShort (length data))) \<and>
   (data \<noteq> [] \<and> drop_bit 4 (data ! 0) = 6 \<and> length data < 40 \<longrightarrow>
      ParsePacket data = Inl (IPv6PacketTooShort (length data))) \<and>
   (\<forall>p. ParsePacket data = Inr p \<longrightarrow>
      (Type p = PacketTypeIPv4 \<and> drop_bit 4 (data ! 0) = 4) \<or>
      (Type p = PacketTypeIPv6 \<and> drop_bit 4 (data ! 0) = 6))"
proof (intro conjI impI allI)
  fix p assume "ParsePacket data = Inr p"
  from ParsePacket_Inr [OF this]
  show "(Type p = PacketTypeIPv4 \<and> drop_bit 4 (data ! 0) = 4) \<or>
        (Type p = PacketTypeIPv6 \<and> drop_bit 4 (data ! 0) = 6)" by blast
qed (simp_all add: parse_defs byte_drop4_and)

theorem ParsePacket_rejects_witness:
  "ParsePacket [] = Inl PacketTooShort \<and>
   ParsePacket [0x50] = Inl (UnsupportedIPVersion 5) \<and>
   ParsePacket [0x45] = Inl (IPv4PacketTooShort 1) \<and>
   ParsePacket [0x60] = Inl (IPv6PacketTooShort 1) \<and>
   Type (sample_packet v4_sample PacketTypeIPv4) = PacketTypeIPv4 \<and>
   drop_bit 4 (v4_sample ! 0) = 4"
  using ParsePacket_rejects [of "[]"] ParsePacket_rejects [of "[0x50]"]
    ParsePacket_rejects [of "[0x45]"] ParsePacket_rejects [of "[0x60]"]
    ParsePacket_rejects [of v4_sample] parse_v4_sample
  by (simp add: v4_sample_def sample_packet_def)

section \<open>ModifyTTL: expiry and frame\<close>

text \<open>
  Claim C3. On a parsed IPv4 packet whose TTL byte (offset 8) is at most 1, and on a
  parsed IPv6 packet whose hop-limit byte (offset 7) is at most 1, \<open>ModifyTTL\<close> returns
  false and the packet, its buffer included, is what it was.
\<close>

theorem ModifyTTL_expired:
  assumes "ParsePacket data = Inr p"
    and "(Type p = PacketTypeIPv4 \<and> Data p ! 8 \<le> 1) \<or>
         (Type p = PacketTypeIPv6 \<and> Data p ! 7 \<le> 1)"
  shows "ModifyTTL p = Some (p, False)"
  using ParsePacket_Inr [OF assms(1)] assms(2)
  by (auto simp: ModifyTTL_def)

theorem ModifyTTL_expired_witness:
  "ModifyTTL (sample_packet v4_expired PacketTypeIPv4)
     = Some (sample_packet v4_expired PacketTypeIPv4, False) \<and>
   ModifyTTL (sample_packet (v6_sample 1) PacketTypeIPv6)
     = Some (sample_packet (v6_sample 1) PacketTypeIPv6, False) \<and>
   ModifyTTL (sample_packet (v6_sample 0) PacketTypeIPv6)
     = Some (sample_packet (v6_sample 0) PacketTypeIPv6, False)"
  using ModifyTTL_expired [OF parse_v4_expired] ModifyTTL_expired [OF parse_v6_sample [of 1]]
    ModifyTTL_expired [OF parse_v6_sample [of 0]]
  by (simp add: sample_packet_def v4_expired_def v6_sample_def)

text \<open>
  Claim C10. On a parsed IPv4 packet with TTL at least 2, \<open>ModifyTTL\<close> returns true and
  changes nothing of the packet but its buffer, whose length stays and whose bytes stay
  at every offset other than 8, 10 and 11; on a parsed IPv6 packet with hop limit at least
  2 the same holds with offset 7 as the only exception.
\<close>

theorem ModifyTTL_frame:
  assumes "ParsePacket data = Inr p"
    and "(Type p = PacketTypeIPv4 \<and> 2 \<le> Data p ! 8) \<or>
         (Type p = PacketTypeIPv6 \<and> 2 \<le> Data p ! 7)"
  shows "\<exists>d'. ModifyTTL p = Some (p\<lparr>Data := d'\<rparr>, True) \<and> length d' = length (Data p) \<and>
           (\<forall>i < length (Data p).
              (if Type p = PacketTypeIPv4 then i \<noteq> 8 \<and> i \<noteq> 10 \<and> i \<noteq> 11 else i \<noteq> 7)
              \<longrightarrow> d' ! i = Data p ! i)"
proof -
  have le: "\<And>x :: byte. 2 \<le> x \<Longrightarrow> \<not> x \<le> 1"
    by (simp add: word_le_nat_alt)
  show ?thesis
    using ParsePacket_Inr [OF assms(1)] assms(2)
    by (auto simp: ModifyTTL_def Let_def PutUint16_def le)
qed

theorem ModifyTTL_frame_witness:
  "(\<exists>d'. ModifyTTL (sample_packet v4_sample PacketTypeIPv4)
            = Some ((sample_packet v4_sample PacketTypeIPv4)\<lparr>Data := d'\<rparr>, True) \<and>
          length d' = 20 \<and> take 8 d' = take 8 v4_sample \<and> d' ! 9 = 6 \<and>
          drop 12 d' = drop 12 v4_sample) \<and>
   (\<exists>d'. ModifyTTL (sample_packet (v6_sample 64) PacketTypeIPv6)
            = Some ((sample_packet (v6_sample 64) PacketTypeIPv6)\<lparr>Data := d'\<rparr>, True) \<and>
          length d' = 40 \<and> take 7 d' = take 7 (v6_sample 64) \<and>
          drop 8 d' = drop 8 (v6_sample 64))"
proof (rule conjI)
  have "(Type (sample_packet v4_sample PacketTypeIPv4) = PacketTypeIPv4 \<and>
          2 \<le> Data (sample_packet v4_sample PacketTypeIPv4) ! 8) \<or>
        (Type (sample_packet v4_sample PacketTypeIPv4) = PacketTypeIPv6 \<and>
          2 \<le> Data (sample_packet v4_sample PacketTypeIPv4) ! 7)"
    by (simp add: sample_packet_def v4_sample_def)
  from ModifyTTL_frame [OF parse_v4_sample this]
  show "\<exists>d'. ModifyTTL (sample_packet v4_sample PacketTypeIPv4)
            = Some ((sample_packet v4_sample PacketTypeIPv4)\<lparr>Data := d'\<rparr>, True) \<and>
          length d' = 20 \<and> take 8 d' = take 8 v4_sample \<and> d' ! 9 = 6 \<and>
          drop 12 d' = drop 12 v4_sample"
    by (auto simp: sample_packet_def v4_sample_def ModifyTTL_def Let_def PutUint16_def)
next
  have "(Type (sample_packet (v6_sample 64) PacketTypeIPv6) = PacketTypeIPv4 \<and>
          2 \<le> Data (sample_packet (v6_sample 64) PacketTypeIPv6) ! 8) \<or>
        (Type (sample_packet (v6_sample 64) PacketTypeIPv6) = PacketTypeIPv6 \<and>
          2 \<le> Data (sample_packet (v6_sample 64) PacketTypeIPv6) ! 7)"
    by (simp add: sample_packet_def v6_sample_def)
  from ModifyTTL_frame [OF parse_v6_sample this]
  show "\<exists>d'. ModifyTTL (sample_packet (v6_sample 64) PacketTypeIPv6)
            = Some ((sample_packet (v6_sample 64) PacketTypeIPv6)\<lparr>Data := d'\<rparr>, True) \<and>
          length d' = 40 \<and> take 7 d' = take 7 (v6_sample 64) \<and>
          drop 8 d' = drop 8 (v6_sample 64)"
    by (auto simp: sample_packet_def v6_sample_def ModifyTTL_def Let_def)
qed

section \<open>Address replacement: the length check\<close>

lemma length4: "length xs = 4 \<Longrightarrow> \<exists>a b c d. xs = [a, b, c, d]"
  by (auto simp: length_Suc_conv numeral_eq_Suc)

lemma adjustment_loop_4:
  "length oldAddr = 4 \<Longrightarrow> length newAddr = 4 \<Longrightarrow> \<exists>x. adjustment_loop oldAddr newAddr a = Some x"
  by (auto dest!: length4)

lemma recalculate_defined:
  assumes "12 \<le> length d" "length oldAddr = 4" "length newAddr = 4"
  shows "\<exists>d'. recalculateIPv4Checksum d oldAddr newAddr = Some d'"
  using adjustment_loop_4 [OF assms(2,3), of 0] assms(1)
  by (auto simp: recalculateIPv4Checksum_def Let_def)

text \<open>
  Claim C9. On a parsed packet, \<open>ReplaceSourceAddress\<close> and \<open>ReplaceDestinationAddress\<close>
  return (no panic), they return an error exactly when the new address is not 4 bytes long
  for an IPv4 packet or not 16 bytes long for an IPv6 packet, and when they return an error
  the packet (buffer, source and destination included) is what it was.
\<close>

theorem Replace_address_length_error:
  assumes "ParsePacket data = Inr p"
  shows "(\<exists>p' e. ReplaceSourceAddress p a = Some (p', e) \<and>
            ((e \<noteq> None) = (length a \<noteq> (if Type p = PacketTypeIPv4 then 4 else 16))) \<and>
            (e \<noteq> None \<longrightarrow> p' = p)) \<and>
         (\<exists>p' e. ReplaceDestinationAddress p a = Some (p', e) \<and>
            ((e \<noteq> None) = (length a \<noteq> (if Type p = PacketTypeIPv4 then 4 else 16))) \<and>
            (e \<noteq> None \<longrightarrow> p' = p))"
proof -
  from ParsePacket_Inr [OF assms]
  consider (v4) "Type p = PacketTypeIPv4" "20 \<le> length (Data p)"
    | (v6) "Type p = PacketTypeIPv6" "40 \<le> length (Data p)"
    by auto
  then show ?thesis
  proof cases
    case v4
    show ?thesis
    proof (cases "length a = 4")
      case True
      have "\<exists>d'. recalculateIPv4Checksum (copy_slice (Data p) 12 16 a)
                (take 4 (drop 12 (Data p))) a = Some d'"
        using v4 True by (intro recalculate_defined) (simp_all add: copy_slice_def)
      moreover have "\<exists>d'. recalculateIPv4Checksum (copy_slice (Data p) 16 20 a)
                (take 4 (drop 16 (Data p))) a = Some d'"
        using v4 True by (intro recalculate_defined) (simp_all add: copy_slice_def)
      ultimately show ?thesis using v4 True
        by (auto simp: ReplaceSourceAddress_def ReplaceDestinationAddress_def IPv4len_def Let_def)
    next
      case False
      then show ?thesis using v4
        by (simp add: ReplaceSourceAddress_def ReplaceDestinationAddress_def IPv4len_def)
    qed
  next
    case v6
    then show ?thesis
      by (simp add: ReplaceSourceAddress_def ReplaceDestinationAddress_def IPv6len_def)
  qed
qed

theorem Replace_address_length_error_witness:
  "ReplaceSourceAddress (sample_packet v4_sample PacketTypeIPv4) [10, 0, 0]
     = Some (sample_packet v4_sample PacketTypeIPv4, Some InvalidIPv4SourceAddress) \<and>
   (\<exists>p'. ReplaceSourceAddress (sample_packet v4_sample PacketTypeIPv4) [10, 0, 0, 2]
     = Some (p', None)) \<and>
   ReplaceDestinationAddress (sample_packet (v6_sample 64) PacketTypeIPv6) [10, 0, 0, 2]
     = Some (sample_packet (v6_sample 64) PacketTypeIPv6, Some InvalidIPv6DestinationAddress) \<and>
   (\<exists>p'. ReplaceDestinationAddress (sample_packet (v6_sample 64) PacketTypeIPv6)
            (take 16 (drop 8 (v6_sample 64))) = Some (p', None))"
  using Replace_address_length_error [OF parse_v4_sample, of "[10, 0, 0]"]
    Replace_address_length_error [OF parse_v4_sample, of "[10, 0, 0, 2]"]
    Replace_address_length_error [OF parse_v6_sample, of 64 "[10, 0, 0, 2]"]
    Replace_address_length_error [OF parse_v6_sample, of 64 "take 16 (drop 8 (v6_sample 64))"]
  by (auto simp: sample_packet_def ReplaceSourceAddress_def ReplaceDestinationAddress_def
      IPv4len_def IPv6len_def v6_sample_def)

section \<open>The secure transport after Close\<close>

text \<open>
  Claim C7. After \<open>Close\<close>, the connection is closed, and whatever calls follow, every
  \<open>Read\<close> and \<open>Write\<close> returns 0 and the closed-pipe error, every further \<open>Close\<close>
  returns nil, and the connection (the list of calls made on the wrapped connection
  included) stays as the first \<open>Close\<close> left it: no call reaches the wrapped connection.
\<close>

theorem closed_conn_rejects_calls:
  "closed (fst (Close io t)) \<and>
   run_conn cs (fst (Close io t)) = (fst (Close io t), map closed_result cs)"
proof -
  have inv: "closed u \<Longrightarrow> run_conn cs u = (u, map closed_result cs)" for u
  proof (induction cs)
    case Nil
    then show ?case by simp
  next
    case (Cons c cs)
    then show ?case by (cases c) (simp_all add: Read_def Write_def Close_def)
  qed
  have "closed (fst (Close io t))" by (simp add: Close_def)
  with inv show ?thesis by simp
qed

theorem closed_conn_rejects_calls_witness:
  "run_conn [CallRead (5, None), CallWrite (3, None), CallClose (Some ConnError)]
     (fst (Close None \<lparr>closed = False, conn = [ConnRead]\<rparr>))
   = (\<lparr>closed = True, conn = [ConnRead, ConnClose]\<rparr>,
      [IOResult (0, Some ErrClosedPipe), IOResult (0, Some ErrClosedPipe), CloseResult None])"
  using closed_conn_rejects_calls [of None "\<lparr>closed = False, conn = [ConnRead]\<rparr>"
      "[CallRead (5, None), CallWrite (3, None), CallClose (Some ConnError)]"]
  by (simp add: Close_def)

section \<open>The reconnection policy\<close>

text \<open>
  With reconnection enabled and a positive \<open>MaxRetries\<close>, a client whose every attempt
  fails and whose every wait ends with the timer gives up after as many further attempts
  as the counter is short of \<open>MaxRetries\<close>, provided the script is long enough to show
  it.
\<close>

lemma give_up_after_retries:
  assumes "\<forall>a \<in> set script. \<exists>e. a = ConnectFails e TimerFired"
    and "isRunning c" and "reconnect c" and "0 < MaxRetries (config c)"
    and "0 \<le> retries c" and "retries c \<le> MaxRetries (config c)"
    and "nat (MaxRetries (config c) - retries c) < length script"
  shows "\<exists>c'. runMainLoop script c n
            = loop_returns c' (n + nat (MaxRetries (config c) - retries c) + 1) \<and>
           \<not> isRunning c' \<and> retries c' = MaxRetries (config c) \<and> config c' = config c \<and>
           stopCh c' = stopCh c"
  using assms
proof (induction script arbitrary: c n)
  case Nil
  then show ?case by simp
next
  case (Cons a script)
  from Cons.prems(1) obtain e where a: "a = ConnectFails e TimerFired" by auto
  define c0 where "c0 = (if e = HandshakeFailed then c\<lparr>conn := None\<rparr> else c)"
  have c0: "isRunning c0" "reconnect c0" "config c0 = config c" "retries c0 = retries c"
    "stopCh c0 = stopCh c"
    using Cons.prems by (simp_all add: c0_def)
  show ?case
  proof (cases "retries c = MaxRetries (config c)")
    case True
    have "runMainLoop (a # script) c n = loop_returns (c0\<lparr>isRunning := False\<rparr>) (Suc n)"
      using Cons.prems True a by (simp add: Let_def c0_def)
    then show ?thesis using True c0
      by (intro exI [of _ "c0\<lparr>isRunning := False\<rparr>"]) simp
  next
    case False
    define c1 where "c1 = c0\<lparr>retries := retries c0 + 1\<rparr>"
    have step: "runMainLoop (a # script) c n = runMainLoop script c1 (Suc n)"
      using Cons.prems False a c0 by (simp add: Let_def c1_def c0_def)
    have "\<exists>c'. runMainLoop script c1 (Suc n)
            = loop_returns c' (Suc n + nat (MaxRetries (config c1) - retries c1) + 1) \<and>
           \<not> isRunning c' \<and> retries c' = MaxRetries (config c1) \<and> config c' = config c1 \<and>
           stopCh c' = stopCh c1"
      using Cons.prems False c0 by (intro Cons.IH) (auto simp: c1_def)
    then obtain c' where r: "runMainLoop script c1 (Suc n)
            = loop_returns c' (Suc n + nat (MaxRetries (config c1) - retries c1) + 1)"
      and c': "\<not> isRunning c'" "retries c' = MaxRetries (config c1)" "config c' = config c1"
        "stopCh c' = stopCh c1"
      by blast
    have eq: "Suc n + nat (MaxRetries (config c1) - retries c1) + 1
         = n + nat (MaxRetries (config c) - retries c) + 1"
      using Cons.prems False c0 by (simp add: c1_def)
    have cfg: "config c1 = config c" "stopCh c1 = stopCh c" using c0 by (simp_all add: c1_def)
    from r have "runMainLoop (a # script) c n
         = loop_returns c' (n + nat (MaxRetries (config c) - retries c) + 1)"
      by (simp only: step eq)
    with c' cfg show ?thesis by (intro exI [of _ c']) simp
  qed
qed

text \<open>
  Claim C6. While the client is running and an attempt to connect fails: if reconnection
  is disabled, or \<open>MaxRetries\<close> is positive and the retry counter has reached it, the
  loop ends at once with the client stopped and the counter unchanged (by a return, unless
  \<open>stopCh\<close> was closed before); otherwise the counter goes up by one, the client stays
  running, and when the wait ends with the timer the loop goes on to the next attempt. So
  with reconnection enabled, \<open>MaxRetries = 2\<close>, a counter at 0, every attempt failing and
  every wait ending with the timer, the loop calls \<open>connectToServer\<close> three times (the
  first attempt and exactly two retries) and ends with the client stopped and the counter
  at 2.
\<close>

theorem reconnect_policy:
  assumes "isRunning c"
  shows "(\<not> reconnect c \<or> (0 < MaxRetries (config c) \<and> MaxRetries (config c) \<le> retries c) \<longrightarrow>
            (\<exists>c' out. runMainLoop (ConnectFails e w # script) c n = Some (c', Suc n, out) \<and>
                  \<not> isRunning c' \<and> retries c' = retries c \<and>
                  (out = Panicked) = (stopCh c = ChanClosed))) \<and>
         (\<not> (\<not> reconnect c \<or> (0 < MaxRetries (config c) \<and> MaxRetries (config c) \<le> retries c)) \<longrightarrow>
            (\<exists>c'. isRunning c' \<and> retries c' = retries c + 1 \<and> reconnect c' = reconnect c \<and>
                  config c' = config c \<and> stopCh c' = stopCh c \<and>
                  runMainLoop (ConnectFails e TimerFired # script) c n
                    = runMainLoop script c' (Suc n))) \<and>
         (reconnect c \<and> MaxRetries (config c) = 2 \<and> retries c = 0 \<and> 3 \<le> length script \<and>
          (\<forall>a \<in> set script. \<exists>e. a = ConnectFails e TimerFired) \<longrightarrow>
            (\<exists>c' out. runMainLoop script c 0 = Some (c', 3, out) \<and> \<not> isRunning c' \<and>
                  retries c' = 2 \<and> (out = Panicked) = (stopCh c = ChanClosed)))"
proof (intro conjI impI)
  assume "\<not> reconnect c \<or> (0 < MaxRetries (config c) \<and> MaxRetries (config c) \<le> retries c)"
  then show "\<exists>c' out. runMainLoop (ConnectFails e w # script) c n = Some (c', Suc n, out) \<and>
                  \<not> isRunning c' \<and> retries c' = retries c \<and>
                  (out = Panicked) = (stopCh c = ChanClosed)"
    using assms by (auto simp: Let_def loop_returns_def)
next
  assume "\<not> (\<not> reconnect c \<or> (0 < MaxRetries (config c) \<and> MaxRetries (config c) \<le> retries c))"
  then show "\<exists>c'. isRunning c' \<and> retries c' = retries c + 1 \<and> reconnect c' = reconnect c \<and>
                  config c' = config c \<and> stopCh c' = stopCh c \<and>
                  runMainLoop (ConnectFails e TimerFired # script) c n
                    = runMainLoop script c' (Suc n)"
    using assms
    by (intro exI [of _ "(if e = HandshakeFailed then c\<lparr>conn := None\<rparr> else c)
                          \<lparr>retries := retries c + 1\<rparr>"])
       (auto simp: Let_def)
next
  assume a: "reconnect c \<and> MaxRetries (config c) = 2 \<and> retries c = 0 \<and> 3 \<le> length script \<and>
          (\<forall>a \<in> set script. \<exists>e. a = ConnectFails e TimerFired)"
  then have "\<exists>c'. runMainLoop script c 0
            = loop_returns c' (0 + nat (MaxRetries (config c) - retries c) + 1) \<and>
           \<not> isRunning c' \<and> retries c' = MaxRetries (config c) \<and> config c' = config c \<and>
           stopCh c' = stopCh c"
    using assms by (intro give_up_after_retries) auto
  then show "\<exists>c' out. runMainLoop script c 0 = Some (c', 3, out) \<and> \<not> isRunning c' \<and>
                  retries c' = 2 \<and> (out = Panicked) = (stopCh c = ChanClosed)"
    using a by (auto simp: loop_returns_def)
qed

theorem reconnect_policy_witness:
  "runMainLoop [ConnectFails DialFailed TimerFired, ConnectFails HandshakeFailed TimerFired,
                ConnectFails DialFailed TimerFired, ConnectFails DialFailed TimerFired]
     running_client 0
   = Some (running_client\<lparr>isRunning := False, retries := 2\<rparr>, 3, Returned) \<and>
   runMainLoop [ConnectFails DialFailed TimerFired] (running_client\<lparr>reconnect := False\<rparr>) 0
   = Some (running_client\<lparr>reconnect := False, isRunning := False\<rparr>, 1, Returned) \<and>
   runMainLoop [ConnectFails DialFailed TimerFired, ConnectFails DialFailed TimerFired]
     (running_client\<lparr>config := (config running_client)\<lparr>MaxRetries := 1\<rparr>\<rparr>) 0
   = Some (running_client\<lparr>config := (config running_client)\<lparr>MaxRetries := 1\<rparr>,
                          isRunning := False, retries := 1\<rparr>, 2, Returned)"
  using reconnect_policy [of running_client DialFailed TimerFired
      "[ConnectFails HandshakeFailed TimerFired,
        ConnectFails DialFailed TimerFired, ConnectFails DialFailed TimerFired]" 0]
    reconnect_policy [of "running_client\<lparr>reconnect := False\<rparr>" DialFailed TimerFired "[]" 0]
    reconnect_policy [of "running_client\<lparr>config := (config running_client)\<lparr>MaxRetries := 1\<rparr>\<rparr>"
       DialFailed TimerFired "[ConnectFails DialFailed TimerFired]" 0]
  by (simp add: running_client_def NewClient_def Let_def loop_returns_def)

text \<open>
  The stop paths, for the record of what the model does there. When the \<open>stopCh\<close> case of
  a wait is taken on a running client whose channel was open, \<open>Stop\<close> has cleared
  \<open>isRunning\<close> and closed the channel, and the deferred send of the loop panics.
\<close>

lemma stop_during_wait:
  assumes "isRunning c" "stopCh c = ChanOpen" "reconnect c"
    "\<not> (0 < MaxRetries (config c) \<and> MaxRetries (config c) \<le> retries c)"
  shows "\<exists>c'. runMainLoop (ConnectFails e StopSignalled # script) c n = Some (c', Suc n, Panicked) \<and>
           \<not> isRunning c' \<and> stopCh c' = ChanClosed \<and> retries c' = retries c + 1"
  using assms
  by (auto simp: Let_def stop_case_def Stop_def loop_returns_def split: option.splits)

section \<open>The routing table has no duplicate prefix\<close>

lemma find_route_None:
  "(find_route S k rs = None) = (k \<notin> set (map (S \<circ> Network) rs))"
  by (induction rs) auto

lemma find_route_Some:
  "find_route S k rs = Some i \<Longrightarrow>
     i < length rs \<and> S (Network (rs ! i)) = k \<and> (\<forall>j<i. S (Network (rs ! j)) \<noteq> k)"
proof (induction rs arbitrary: i)
  case Nil
  then show ?case by simp
next
  case (Cons r rs)
  show ?case
  proof (cases "S (Network r) = k")
    case True
    with Cons.prems show ?thesis by simp
  next
    case False
    with Cons.prems obtain i' where i': "find_route S k rs = Some i'" "i = Suc i'" by auto
    from Cons.IH [OF i'(1)] False i'(2) show ?thesis
      by (auto simp: less_Suc_eq_0_disj)
  qed
qed

lemma map_update_same_key:
  "i < length rs \<Longrightarrow> f x = f (rs ! i) \<Longrightarrow> map f (rs[i := x]) = map f rs"
  by (simp add: map_update list_update_same_conv)

lemma distinct_swap_remove:
  assumes "distinct ks" "i < length ks"
  shows "distinct (butlast (ks[i := last ks]))"
proof -
  from assms(2) have "ks \<noteq> []" by auto
  then obtain ys l where ks: "ks = ys @ [l]" by (metis rev_exhaust)
  show ?thesis
  proof (cases "i < length ys")
    case True
    then have "butlast (ks[i := last ks]) = ys[i := l]"
      by (simp add: ks list_update_append)
    moreover have "distinct (ys[i := l])"
      using assms(1) True by (auto simp: ks distinct_list_update)
    ultimately show ?thesis by simp
  next
    case False
    with assms(2) have "i = length ys" by (simp add: ks)
    then show ?thesis using assms(1) by (simp add: ks)
  qed
qed

lemma AddRoute_distinct:
  assumes "distinct (prefixes S r)"
  shows "distinct (prefixes S (fst (AddRoute P S cidr t r)))"
proof (cases "P cidr")
  case None
  then show ?thesis using assms by (simp add: AddRoute_def)
next
  case (Some network)
  show ?thesis
  proof (cases "find_route S (S network) (routes r)")
    case None
    then have "S network \<notin> set (prefixes S r)"
      by (simp add: find_route_None prefixes_def)
    then show ?thesis using assms Some None
      by (simp add: AddRoute_def prefixes_def Let_def)
  next
    case (Some i)
    from find_route_Some [OF this] have "i < length (routes r)" by simp
    then have "map (S \<circ> Network) ((routes r)[i := (routes r ! i)\<lparr>Route.Type := t\<rparr>])
                 = map (S \<circ> Network) (routes r)"
      by (intro map_update_same_key) simp_all
    then show ?thesis using assms Some \<open>P cidr = Some network\<close>
      by (simp add: AddRoute_def prefixes_def)
  qed
qed

lemma RemoveRoute_distinct:
  assumes "distinct (prefixes S r)"
  shows "distinct (prefixes S (fst (RemoveRoute P S cidr r)))"
proof (cases "P cidr")
  case None
  then show ?thesis using assms by (simp add: RemoveRoute_def)
next
  case (Some network)
  show ?thesis
  proof (cases "find_route S (S network) (routes r)")
    case None
    then show ?thesis using assms Some by (simp add: RemoveRoute_def)
  next
    case (Some i)
    from find_route_Some [OF this] have i: "i < length (routes r)" by simp
    then have ne: "routes r \<noteq> []" by auto
    have "map (S \<circ> Network) (butlast ((routes r)[i := last (routes r)]))
            = butlast ((map (S \<circ> Network) (routes r))[i := last (map (S \<circ> Network) (routes r))])"
      using ne by (simp add: map_butlast map_update last_map)
    moreover have "distinct (butlast ((map (S \<circ> Network) (routes r))
                      [i := last (map (S \<circ> Network) (routes r))]))"
      using assms i by (intro distinct_swap_remove) (simp_all add: prefixes_def)
    ultimately show ?thesis using Some \<open>P cidr = Some network\<close>
      by (simp add: RemoveRoute_def prefixes_def Let_def)
  qed
qed

lemma ClearRoutes_distinct: "distinct (prefixes S (ClearRoutes r))"
  by (simp add: prefixes_def ClearRoutes_def)

lemma run_calls_distinct:
  "distinct (prefixes S r) \<Longrightarrow> distinct (prefixes S (run_calls P S cs r))"
proof (induction cs arbitrary: r)
  case Nil
  then show ?case by simp
next
  case (Cons c cs)
  then show ?case
    by (cases c) (simp_all add: AddRoute_distinct RemoveRoute_distinct ClearRoutes_distinct)
qed

lemma foldl_AddRoute_distinct:
  "distinct (prefixes S r) \<Longrightarrow>
   distinct (prefixes S (foldl (\<lambda>r (cidr, t). fst (AddRoute P S cidr t r)) r xs))"
  by (induction xs arbitrary: r) (auto simp: AddRoute_distinct)

lemma NewRouter_distinct: "distinct (prefixes S (NewRouter P S))"
  unfolding NewRouter_def addPrivateNetworkRoutes_def
  by (rule foldl_AddRoute_distinct) (simp add: prefixes_def)

text \<open>
  Claim C5. After any sequence of \<open>AddRoute\<close>, \<open>RemoveRoute\<close> and \<open>ClearRoutes\<close> calls on a
  router made by \<open>NewRouter\<close>, no two routes of the table have networks that print alike (so no two
  have the same network); and \<open>AddRoute\<close> with a prefix the table holds returns nil and
  changes only the classification of the route that holds it, in place.
\<close>

theorem no_duplicate_prefixes:
  "distinct (map (String \<circ> Network) (routes (run_calls ParseCIDR String cs (NewRouter ParseCIDR String)))) \<and>
   distinct (map Network (routes (run_calls ParseCIDR String cs (NewRouter ParseCIDR String)))) \<and>
   (ParseCIDR cidr = Some network \<and> String network \<in> set (map (String \<circ> Network) (routes r)) \<longrightarrow>
      (\<exists>i<length (routes r). String (Network (routes r ! i)) = String network \<and>
         AddRoute ParseCIDR String cidr t r
           = (r\<lparr>routes := (routes r)[i := (routes r ! i)\<lparr>Route.Type := t\<rparr>]\<rparr>, None)))"
proof (intro conjI impI)
  have d: "distinct (prefixes String (run_calls ParseCIDR String cs (NewRouter ParseCIDR String)))"
    by (intro run_calls_distinct NewRouter_distinct)
  then show "distinct (map (String \<circ> Network)
      (routes (run_calls ParseCIDR String cs (NewRouter ParseCIDR String))))"
    by (simp add: prefixes_def)
  from d have "distinct (map String (map Network
      (routes (run_calls ParseCIDR String cs (NewRouter ParseCIDR String)))))"
    by (simp add: prefixes_def)
  then show "distinct (map Network
      (routes (run_calls ParseCIDR String cs (NewRouter ParseCIDR String))))"
    by (rule distinct_map [THEN iffD1, THEN conjunct1])
next
  assume a: "ParseCIDR cidr = Some network \<and>
    String network \<in> set (map (String \<circ> Network) (routes r))"
  then obtain i where i: "find_route String (String network) (routes r) = Some i"
    using find_route_None [of String "String network" "routes r"] by auto
  from find_route_Some [OF i] a i
  show "\<exists>i<length (routes r). String (Network (routes r ! i)) = String network \<and>
         AddRoute ParseCIDR String cidr t r
           = (r\<lparr>routes := (routes r)[i := (routes r ! i)\<lparr>Route.Type := t\<rparr>]\<rparr>, None)"
    by (auto simp: AddRoute_def)
qed

theorem no_duplicate_prefixes_witness:
  "routes (run_calls sample_ParseCIDR sample_String [CallAddRoute ''10.0.0.0/8'' RouteTypeDrop]
            (NewRouter sample_ParseCIDR sample_String))
     = [\<lparr>Network = net_10_8, Type = RouteTypeDrop\<rparr>,
        \<lparr>Network = net_0_0, Type = RouteTypeInternet\<rparr>] \<and>
   distinct (map (sample_String \<circ> Network)
     (routes (run_calls sample_ParseCIDR sample_String [CallAddRoute ''10.0.0.0/8'' RouteTypeDrop]
            (NewRouter sample_ParseCIDR sample_String)))) \<and>
   sample_String net_10_8 \<in> set (map (sample_String \<circ> Network) (routes sample_table)) \<and>
   AddRoute sample_ParseCIDR sample_String ''10.0.0.0/8'' RouteTypeDrop sample_table
     = (sample_table\<lparr>routes := [\<lparr>Network = net_10_8, Type = RouteTypeDrop\<rparr>,
                                 \<lparr>Network = net_0_0, Type = RouteTypeInternet\<rparr>]\<rparr>, None)"
  using no_duplicate_prefixes [of sample_String sample_ParseCIDR
      "[CallAddRoute ''10.0.0.0/8'' RouteTypeDrop]" "''10.0.0.0/8''" net_10_8 sample_table
      RouteTypeDrop]
  by (simp add: sample_table_def sample_ParseCIDR_def sample_String_def NewRouter_def
      addPrivateNetworkRoutes_def AddRoute_def ClearRoutes_def empty_router_def
      net_10_8_def net_0_0_def To4_def IPv4len_def)

section \<open>GetRoute: longest prefix match\<close>

lemma GetRoute_loop_append:
  "GetRoute_loop ip (xs @ ys) st = GetRoute_loop ip ys (GetRoute_loop ip xs st)"
proof (induction xs arbitrary: st)
  case Nil
  then show ?case by simp
next
  case (Cons x xs)
  then show ?case by (cases st) (simp add: Let_def)
qed

lemma GetRoute_loop_snoc:
  "GetRoute_loop ip (rs @ [route]) st =
     (case GetRoute_loop ip rs st of
        (m, ms) \<Rightarrow>
          if Contains (Network route) ip \<and> (m = None \<or> maskSize route > ms)
          then (Some route, maskSize route) else (m, ms))"
  by (simp add: GetRoute_loop_append maskSize_def Let_def split: prod.splits)

lemma GetRoute_loop_inv:
  "case GetRoute_loop ip rs (None, 0) of
     (None, ms) \<Rightarrow> \<forall>j < length rs. \<not> Contains (Network (rs ! j)) ip
   | (Some route, ms) \<Rightarrow> \<exists>i. best_match ip rs i \<and> route = rs ! i \<and> ms = maskSize route"
proof (induction rs rule: rev_induct)
  case Nil
  then show ?case by simp
next
  case (snoc route rs)
  obtain m ms where st: "GetRoute_loop ip rs (None, 0) = (m, ms)" by (cases "GetRoute_loop ip rs (None, 0)")
  show ?case
  proof (cases m)
    case None
    with snoc st have no: "\<forall>j < length rs. \<not> Contains (Network (rs ! j)) ip" by simp
    show ?thesis
    proof (cases "Contains (Network route) ip")
      case True
      have "best_match ip (rs @ [route]) (length rs)"
        using no True by (auto simp: best_match_def nth_append less_Suc_eq)
      then show ?thesis using st None True
        by (auto simp: GetRoute_loop_snoc intro!: exI [of _ "length rs"])
    next
      case False
      then show ?thesis using st None no
        by (auto simp: GetRoute_loop_snoc nth_append less_Suc_eq)
    qed
  next
    case (Some old)
    with snoc st obtain i where i: "best_match ip rs i" "old = rs ! i" "ms = maskSize old"
      by auto
    show ?thesis
    proof (cases "Contains (Network route) ip \<and> maskSize route > ms")
      case True
      have "best_match ip (rs @ [route]) (length rs)"
        using i True unfolding best_match_def
        by (auto simp: nth_append less_Suc_eq)
      then show ?thesis using st Some True
        by (auto simp: GetRoute_loop_snoc intro!: exI [of _ "length rs"])
    next
      case False
      have "best_match ip (rs @ [route]) i"
        using i False unfolding best_match_def
        by (auto simp: nth_append less_Suc_eq)
      then show ?thesis using st Some False i
        by (auto simp: GetRoute_loop_snoc nth_append best_match_def intro!: exI [of _ i])
    qed
  qed
qed


lemma Contains_10_8 [simp]:
  "Contains net_10_8 (net_IPv4 10 1 2 3)" "\<not> Contains net_10_8 (net_IPv4 8 8 8 8)"
  by (simp_all add: Contains_def networkNumberAndMask_def To4_def net_10_8_def net_IPv4_def
      v4InV6Prefix_def IPv4len_def IPv6len_def isZeros_def)

lemma Contains_0_0 [simp]:
  "Contains net_0_0 (net_IPv4 a b c d)"
  by (simp add: Contains_def networkNumberAndMask_def To4_def net_0_0_def net_IPv4_def
      v4InV6Prefix_def IPv4len_def IPv6len_def isZeros_def Let_def)

lemma Mask_Size_samples [simp]:
  "Mask_Size (Mask net_10_8) = (8, 32)" "Mask_Size (Mask net_0_0) = (0, 32)"
  by (simp_all add: Mask_Size_def simpleMaskLength_def net_10_8_def net_0_0_def)

lemma two_route_table:
  assumes "ParseCIDR ''10.0.0.0/8'' = Some net_10_8" "ParseCIDR ''0.0.0.0/0'' = Some net_0_0"
    "String net_10_8 \<noteq> String net_0_0"
  shows "routes (run_calls ParseCIDR String
            [CallAddRoute ''10.0.0.0/8'' RouteTypeTUN, CallAddRoute ''0.0.0.0/0'' RouteTypeInternet]
            (ClearRoutes r))
         = [\<lparr>Network = net_10_8, Type = RouteTypeTUN\<rparr>,
            \<lparr>Network = net_0_0, Type = RouteTypeInternet\<rparr>]"
  using assms by (simp add: AddRoute_def ClearRoutes_def Let_def)

lemma two_route_table_removed:
  assumes "ParseCIDR ''10.0.0.0/8'' = Some net_10_8" "ParseCIDR ''0.0.0.0/0'' = Some net_0_0"
    "String net_10_8 \<noteq> String net_0_0"
  shows "routes (fst (RemoveRoute ParseCIDR String ''10.0.0.0/8'' (run_calls ParseCIDR String
            [CallAddRoute ''10.0.0.0/8'' RouteTypeTUN, CallAddRoute ''0.0.0.0/0'' RouteTypeInternet]
            (ClearRoutes r))))
         = [\<lparr>Network = net_0_0, Type = RouteTypeInternet\<rparr>]"
  using assms two_route_table [OF assms, of r]
  by (simp add: RemoveRoute_def Let_def)

text \<open>
  Claim C4. For every table and every address: when no route contains the address,
  \<open>GetRoute\<close> returns \<open>RouteTypeInternet\<close>; otherwise it returns the classification of
  the route with the longest mask among those that contain it, the first scanned of them
  when several have that mask. In particular, for the table built from 10.0.0.0/8 as TUN
  and 0.0.0.0/0 as Internet (where \<open>ParseCIDR\<close> returns the two networks the library
  returns, and they print differently), 10.1.2.3 goes to TUN and 8.8.8.8 to Internet, and
  once 10.0.0.0/8 is removed 10.1.2.3 goes to Internet.
\<close>

theorem GetRoute_longest_prefix:
  "((\<forall>route \<in> set (routes r). \<not> Contains (Network route) ip) \<longrightarrow>
      GetRoute r ip = RouteTypeInternet) \<and>
   ((\<exists>route \<in> set (routes r). Contains (Network route) ip) \<longrightarrow>
      (\<exists>i. best_match ip (routes r) i \<and> GetRoute r ip = Route.Type (routes r ! i))) \<and>
   (ParseCIDR ''10.0.0.0/8'' = Some net_10_8 \<and> ParseCIDR ''0.0.0.0/0'' = Some net_0_0 \<and>
    String net_10_8 \<noteq> String net_0_0 \<longrightarrow>
      (let t = run_calls ParseCIDR String
                 [CallAddRoute ''10.0.0.0/8'' RouteTypeTUN,
                  CallAddRoute ''0.0.0.0/0'' RouteTypeInternet] (ClearRoutes r0)
       in GetRoute t (net_IPv4 10 1 2 3) = RouteTypeTUN \<and>
          GetRoute t (net_IPv4 8 8 8 8) = RouteTypeInternet \<and>
          GetRoute (fst (RemoveRoute ParseCIDR String ''10.0.0.0/8'' t)) (net_IPv4 10 1 2 3)
            = RouteTypeInternet))"
proof (intro conjI impI)
  assume none: "\<forall>route \<in> set (routes r). \<not> Contains (Network route) ip"
  show "GetRoute r ip = RouteTypeInternet"
    using GetRoute_loop_inv [where ip = ip and rs = "routes r"] none
    by (auto simp: GetRoute_def best_match_def split: prod.splits option.splits)
next
  assume "\<exists>route \<in> set (routes r). Contains (Network route) ip"
  then obtain j where "j < length (routes r)" "Contains (Network (routes r ! j)) ip"
    by (auto simp: in_set_conv_nth)
  then show "\<exists>i. best_match ip (routes r) i \<and> GetRoute r ip = Route.Type (routes r ! i)"
    using GetRoute_loop_inv [where ip = ip and rs = "routes r"]
    by (auto simp: GetRoute_def split: prod.splits option.splits)
next
  assume a: "ParseCIDR ''10.0.0.0/8'' = Some net_10_8 \<and> ParseCIDR ''0.0.0.0/0'' = Some net_0_0 \<and>
    String net_10_8 \<noteq> String net_0_0"
  then have t: "routes (run_calls ParseCIDR String
            [CallAddRoute ''10.0.0.0/8'' RouteTypeTUN, CallAddRoute ''0.0.0.0/0'' RouteTypeInternet]
            (ClearRoutes r0))
         = [\<lparr>Network = net_10_8, Type = RouteTypeTUN\<rparr>,
            \<lparr>Network = net_0_0, Type = RouteTypeInternet\<rparr>]"
    by (intro two_route_table) simp_all
  from a have t': "routes (fst (RemoveRoute ParseCIDR String ''10.0.0.0/8'' (run_calls ParseCIDR String
            [CallAddRoute ''10.0.0.0/8'' RouteTypeTUN, CallAddRoute ''0.0.0.0/0'' RouteTypeInternet]
            (ClearRoutes r0))))
         = [\<lparr>Network = net_0_0, Type = RouteTypeInternet\<rparr>]"
    by (intro two_route_table_removed) simp_all
  show "let t = run_calls ParseCIDR String
                 [CallAddRoute ''10.0.0.0/8'' RouteTypeTUN,
                  CallAddRoute ''0.0.0.0/0'' RouteTypeInternet] (ClearRoutes r0)
       in GetRoute t (net_IPv4 10 1 2 3) = RouteTypeTUN \<and>
          GetRoute t (net_IPv4 8 8 8 8) = RouteTypeInternet \<and>
          GetRoute (fst (RemoveRoute ParseCIDR String ''10.0.0.0/8'' t)) (net_IPv4 10 1 2 3)
            = RouteTypeInternet"
    unfolding Let_def GetRoute_def t t' by simp
qed

theorem GetRoute_longest_prefix_witness:
  "GetRoute empty_router (net_IPv4 10 1 2 3) = RouteTypeInternet \<and>
   GetRoute sample_table (net_IPv4 10 1 2 3) = RouteTypeTUN \<and>
   GetRoute sample_table (net_IPv4 8 8 8 8) = RouteTypeInternet \<and>
   GetRoute (fst (RemoveRoute sample_ParseCIDR sample_String ''10.0.0.0/8'' sample_table))
     (net_IPv4 10 1 2 3) = RouteTypeInternet"
proof -
  note inst = GetRoute_longest_prefix [where r = empty_router and ip = "net_IPv4 10 1 2 3"
      and ParseCIDR = sample_ParseCIDR and String = sample_String and ?r0.0 = empty_router]
  have h: "sample_ParseCIDR ''10.0.0.0/8'' = Some net_10_8 \<and>
      sample_ParseCIDR ''0.0.0.0/0'' = Some net_0_0 \<and>
      sample_String net_10_8 \<noteq> sample_String net_0_0"
    by (simp add: sample_ParseCIDR_def sample_String_def net_10_8_def net_0_0_def)
  have e: "\<forall>route \<in> set (routes empty_router). \<not> Contains (Network route) (net_IPv4 10 1 2 3)"
    by (simp add: empty_router_def)
  from inst e have "GetRoute empty_router (net_IPv4 10 1 2 3) = RouteTypeInternet"
    by blast
  moreover from inst h have
    "let t = run_calls sample_ParseCIDR sample_String
                 [CallAddRoute ''10.0.0.0/8'' RouteTypeTUN,
                  CallAddRoute ''0.0.0.0/0'' RouteTypeInternet] (ClearRoutes empty_router)
       in GetRoute t (net_IPv4 10 1 2 3) = RouteTypeTUN \<and>
          GetRoute t (net_IPv4 8 8 8 8) = RouteTypeInternet \<and>
          GetRoute (fst (RemoveRoute sample_ParseCIDR sample_String ''10.0.0.0/8'' t))
            (net_IPv4 10 1 2 3) = RouteTypeInternet"
    by blast
  ultimately show ?thesis
    unfolding sample_table_def Let_def by blast
qed

section \<open>The header checksum\<close>

subsection \<open>One's-complement sums\<close>

lemma mod_65535_decomp: "a < 65535 \<Longrightarrow> (65535 * q + a) mod 65535 = (a :: nat)"
  by simp

lemma fold16_eq: "fold16 n = (if n = 0 then 0 else (n - 1) mod 65535 + 1)"
proof (induction n rule: fold16.induct)
  case (1 n)
  show ?case
  proof (cases "n < 65536")
    case True
    then show ?thesis by (subst fold16.simps) auto
  next
    case False
    define q where "q = n div 65536"
    define r where "r = n mod 65536"
    have n: "n = 65536 * q + r" by (simp add: q_def r_def)
    have q: "1 \<le> q" using False by (simp add: q_def)
    define k where "k = r + q"
    have k: "0 < k" using q by (simp add: k_def)
    have "fold16 n = fold16 k"
      using False by (subst fold16.simps) (simp add: k_def q_def r_def)
    also have "\<dots> = (k - 1) mod 65535 + 1"
      using "1.IH" False k by (simp add: k_def q_def r_def)
    also have "(k - 1) mod 65535 = (n - 1) mod 65535"
    proof -
      have "n - 1 = 65535 * q + (k - 1)" using n k by (simp add: k_def)
      then show ?thesis by simp
    qed
    finally show ?thesis using False by simp
  qed
qed

lemma be_words_update_even:
  "even i \<Longrightarrow> i < length xs \<Longrightarrow>
   sum_list (be_words (xs[i := v])) + 256 * unat (xs ! i) = sum_list (be_words xs) + 256 * unat v"
proof (induction xs arbitrary: i rule: be_words.induct)
  case (1 a b xs)
  show ?case
  proof (cases i)
    case 0
    then show ?thesis by simp
  next
    case (Suc j)
    with "1.prems" obtain k where k: "i = Suc (Suc k)" by (cases j) auto
    with "1.prems" have "even k" "k < length xs" by auto
    from "1.IH" [OF this] k show ?thesis by simp
  qed
next
  case (2 a)
  then show ?case by simp
next
  case 3
  then show ?case by simp
qed

lemma be_words_update_odd:
  "odd i \<Longrightarrow> i < length xs \<Longrightarrow>
   sum_list (be_words (xs[i := v])) + unat (xs ! i) = sum_list (be_words xs) + unat v"
proof (induction xs arbitrary: i rule: be_words.induct)
  case (1 a b xs)
  show ?case
  proof (cases i)
    case 0
    with "1.prems" show ?thesis by simp
  next
    case (Suc j)
    show ?thesis
    proof (cases j)
      case 0
      with Suc show ?thesis by simp
    next
      case (Suc k)
      with \<open>i = Suc j\<close> "1.prems" have "odd k" "k < length xs" by auto
      from "1.IH" [OF this] Suc \<open>i = Suc j\<close> show ?thesis by simp
    qed
  qed
next
  case (2 a)
  then show ?case by simp
next
  case 3
  then show ?case by simp
qed


lemma ttl_checksum_nat:
  assumes N: "512 \<le> N" and c: "c = 65535 - fold16 N" and corner: "c \<noteq> 65279"
  shows "(if c + 256 < 65536 then c + 256 else c + 257 - 65536) = 65535 - fold16 (N - 256)"
proof -
  define q where "q = (N - 1) div 65535"
  define a where "a = (N - 1) mod 65535"
  have a: "a < 65535" by (simp add: a_def)
  have N1: "N - 1 = 65535 * q + a" by (simp add: q_def a_def)
  have f: "fold16 N = a + 1" using N by (simp add: fold16_eq a_def)
  have c': "c = 65534 - a" using c f by simp
  show ?thesis
  proof (cases "256 \<le> a")
    case True
    with corner c' have a2: "256 \<le> a - 0" "a \<noteq> 255" by simp_all
    have "N - 256 - 1 = 65535 * q + (a - 256)" using N1 True N by simp
    moreover have "a - 256 < 65535" using a by simp
    ultimately have "(N - 256 - 1) mod 65535 = a - 256"
      by (simp only: mod_65535_decomp)
    then have "fold16 (N - 256) = a - 256 + 1" using N by (simp add: fold16_eq)
    then show ?thesis using True a c' by simp
  next
    case False
    with corner c' have a2: "a < 255" by simp
    have "1 \<le> q"
    proof (rule ccontr)
      assume "\<not> 1 \<le> q"
      then have "q = 0" by simp
      with N1 a2 N show False by simp
    qed
    then obtain q' where q': "q = Suc q'" by (cases q) auto
    have "N - 256 - 1 = 65535 * q' + (a + 65279)" using N1 q' N by simp
    moreover have "a + 65279 < 65535" using a2 by simp
    ultimately have "(N - 256 - 1) mod 65535 = a + 65279"
      by (simp only: mod_65535_decomp)
    then have "fold16 (N - 256) = a + 65279 + 1" using N by (simp add: fold16_eq)
    then show ?thesis using a2 c' by simp
  qed
qed


lemma uint16_lt: "unat (x :: uint16) < 65536"
  using unsigned_less [of x, where ?'a = nat] by simp

lemma Uint16_unat: "unat (Uint16 a b) = 256 * unat a + unat b"
proof -
  have "Uint16 a b = ucast b + push_bit 8 (ucast a)"
    unfolding Uint16_def
    by (rule disjunctive_add [symmetric]) (auto simp: bit_simps dest: bit_imp_le_length)
  moreover have "unat (ucast b :: uint16) = unat b"
    using byte_lt [of b] by (simp add: unsigned_ucast_eq take_bit_eq_mod)
  moreover have "unat (push_bit 8 (ucast a :: uint16)) = 256 * unat a"
    using byte_lt [of a]
    by (simp add: push_bit_eq_mult unat_word_ariths unsigned_ucast_eq take_bit_eq_mod)
  ultimately show ?thesis
    using byte_lt [of a] byte_lt [of b] by (simp add: unat_word_ariths)
qed

lemma PutUint16_bytes:
  "256 * unat (ucast (drop_bit 8 v) :: byte) + unat (ucast v :: byte) = unat (v :: uint16)"
proof -
  have "unat (ucast (drop_bit 8 v) :: byte) = unat v div 256"
    using uint16_lt [of v]
    by (simp add: unsigned_ucast_eq unsigned_drop_bit_eq take_bit_eq_mod drop_bit_eq_div unat_div)
  moreover have "unat (ucast v :: byte) = unat v mod 256"
    by (simp add: unsigned_ucast_eq take_bit_eq_mod)
  ultimately show ?thesis by simp
qed

lemma Uint16_PutUint16: "Uint16 (ucast (drop_bit 8 v)) (ucast v) = v"
  by (rule unsigned_word_eqI [where ?'a = nat]) (simp add: Uint16_unat PutUint16_bytes)

lemma ttl_checksum_word:
  "unat (let x = (c :: uint16) + 0x0100 in if x \<le> 0x00FF then x + 1 else x)
     = (if unat c + 256 < 65536 then unat c + 256 else unat c + 257 - 65536)"
proof (cases "unat c + 256 < 65536")
  case True
  then have x: "unat (c + 0x0100) = unat c + 256"
    by (simp add: unat_word_ariths)
  then show ?thesis using True by (simp add: Let_def word_le_nat_alt)
next
  case False
  have "(unat c + 256) mod 65536 = (unat c + 256 - 65536) mod 65536"
    using False by (simp add: le_mod_geq)
  also have "\<dots> = unat c + 256 - 65536" using uint16_lt [of c] by simp
  finally have x: "unat (c + 0x0100) = unat c + 256 - 65536"
    by (simp add: unat_word_ariths)
  then have le: "c + 0x0100 \<le> 0x00FF"
    using uint16_lt [of c] by (simp add: word_le_nat_alt)
  have "unat (c + 0x0100 + 1) = (unat (c + 0x0100) + unat (1 :: uint16)) mod 2 ^ LENGTH(16)"
    by (rule unat_word_ariths(1))
  also have "\<dots> = (unat c + 256 - 65536 + 1) mod 65536"
    by (simp only: x) simp
  also have "\<dots> = unat c + 257 - 65536"
    using uint16_lt [of c] False by simp
  finally show ?thesis using False le by (simp add: Let_def)
qed

lemma byte_pred: "2 \<le> (t :: byte) \<Longrightarrow> unat (t - 1) + 1 = unat t"
proof -
  assume "2 \<le> t"
  then have "2 \<le> unat t" by (simp add: word_le_nat_alt)
  then have "1 \<le> t" by (simp add: word_le_nat_alt)
  then have "unat (t - 1) = unat t - unat (1 :: byte)" by (rule unat_sub)
  with \<open>2 \<le> unat t\<close> show ?thesis by simp
qed


lemma be_words_ge_even:
  assumes "even i" "i < length xs"
  shows "256 * unat (xs ! i) \<le> sum_list (be_words xs)"
  using be_words_update_even [OF assms, of 0] by simp

lemma unat_full_checksum:
  "unat (ipv4_full_checksum d)
     = 65535 - fold16 (sum_list (be_words ((ipv4_header d)[10 := 0, 11 := 0])))"
  by (simp add: ipv4_full_checksum_def unat_of_nat)

lemma nth_update_if: "j < length xs \<Longrightarrow> xs[i := x] ! j = (if i = j then x else xs ! j)"
  by (simp add: nth_list_update)

lemma header_after_ttl:
  assumes "12 \<le> length d"
  shows "(take n (PutUint16 (d[8 := x]) 10 v))[10 := 0, 11 := 0]
           = ((take n d)[10 := 0, 11 := 0])[8 := x]"
proof -
  have "take n (PutUint16 (d[8 := x]) 10 v)
          = (take n d)[8 := x, 10 := ucast (drop_bit 8 v), 11 := ucast v]"
    by (simp add: PutUint16_def take_update_swap)
  also have "\<dots>[10 := 0, 11 := 0] = ((take n d)[10 := 0, 11 := 0])[8 := x]"
    by (rule nth_equalityI) (simp_all add: nth_update_if)
  finally show ?thesis .
qed

lemmas checksum_eval =
  header_checksum_def ipv4_full_checksum_def ipv4_header_def ipv4_header_len_def
  ipv4_checksum_verifies_def Uint16_def fold16.simps

lemma v4_sample_checksum:
  "header_checksum v4_sample = 0x6681" "ipv4_full_checksum v4_sample = 0x6681"
  by (simp_all add: checksum_eval v4_sample_def)

lemma v4_corner_checksum:
  "header_checksum v4_corner = 0xFEFF" "ipv4_full_checksum v4_corner = 0xFEFF"
  by (simp_all add: checksum_eval v4_corner_def)

lemma ModifyTTL_v4_sample:
  "ModifyTTL (sample_packet v4_sample PacketTypeIPv4)
     = Some ((sample_packet v4_sample PacketTypeIPv4)\<lparr>Data := v4_sample_after_ttl\<rparr>, True)"
  by (simp add: ModifyTTL_def sample_packet_def v4_sample_def v4_sample_after_ttl_def
      PutUint16_def Uint16_def Let_def word_le_nat_alt)

lemma parse_v4_stale: "ParsePacket v4_stale = Inr (sample_packet v4_stale PacketTypeIPv4)"
  by (simp add: parse_defs v4_stale_def sample_packet_def)

lemma parse_v4_short_header:
  "ParsePacket v4_short_header = Inr (sample_packet v4_short_header PacketTypeIPv4)"
  by (simp add: parse_defs v4_short_header_def sample_packet_def)

lemmas ModifyTTL_eval =
  ModifyTTL_def sample_packet_def PutUint16_def Uint16_def Let_def word_le_nat_alt

subsection \<open>ModifyTTL and the checksum\<close>

text \<open>
  Claim C1, as amended. On a parsed IPv4 packet with TTL at least 2 whose header-length
  field covers the checksum field (at least 12 bytes; a well-formed header has at least
  20), whose stored checksum is the one a full recomputation gives, and is not
  \<open>0xFEFF\<close>: \<open>ModifyTTL\<close> returns true, the TTL is one less, and the stored checksum
  is again the one a full recomputation of the header gives.
\<close>

theorem ModifyTTL_checksum:
  assumes parse: "ParsePacket data = Inr p"
    and v4: "Type p = PacketTypeIPv4"
    and ttl: "2 \<le> Data p ! 8"
    and ihl: "12 \<le> ipv4_header_len (Data p)"
    and valid: "header_checksum (Data p) = ipv4_full_checksum (Data p)"
    and corner: "header_checksum (Data p) \<noteq> 0xFEFF"
  shows "\<exists>p'. ModifyTTL p = Some (p', True) \<and>
           unat (Data p' ! 8) + 1 = unat (Data p ! 8) \<and>
           header_checksum (Data p') = ipv4_full_checksum (Data p')"
proof -
  define d where "d = Data p"
  define t where "t = d ! 8"
  define c where "c = header_checksum d"
  define c' where "c' = (let x = c + 0x0100 in if x \<le> 0x00FF then x + 1 else x)"
  define d' where "d' = PutUint16 (d[8 := t - 1]) 10 c'"
  define hl where "hl = ipv4_header_len d"
  define Z where "Z = (take hl d)[10 := 0, 11 := 0]"
  define N where "N = sum_list (be_words Z)"
  from ParsePacket_Inr [OF parse] v4
  have len: "20 \<le> length d" "hl \<le> length d" by (auto simp: d_def hl_def)
  have hl: "12 \<le> hl" using ihl by (simp add: hl_def d_def)
  have nle: "\<not> t \<le> 1" using ttl by (simp add: t_def d_def word_le_nat_alt)
  have run: "ModifyTTL p = Some (p\<lparr>Data := d'\<rparr>, True)"
    using v4 len nle
    by (simp add: ModifyTTL_def Let_def d'_def c'_def c_def header_checksum_def
        d_def [symmetric] t_def [symmetric])
  have "d' ! 8 = t - 1"
    using len by (simp add: d'_def PutUint16_def)
  then have ttl': "unat (d' ! 8) + 1 = unat t"
    using byte_pred [OF ttl] by (simp add: t_def d_def)
  have stored: "header_checksum d' = c'"
    using len by (simp add: header_checksum_def d'_def PutUint16_def Uint16_PutUint16)
  have hl': "ipv4_header_len d' = hl"
    using len by (simp add: ipv4_header_len_def d'_def PutUint16_def hl_def)
  have "ipv4_header d' = take hl (PutUint16 (d[8 := t - 1]) 10 c')"
    by (simp add: ipv4_header_def hl') (simp add: d'_def)
  then have Z': "(ipv4_header d')[10 := 0, 11 := 0] = Z[8 := t - 1]"
    using len by (simp add: Z_def header_after_ttl)
  have Z8: "Z ! 8 = t" "8 < length Z"
    using len hl by (simp_all add: Z_def t_def)
  have upd: "sum_list (be_words (Z[8 := t - 1])) + 256 * unat t = N + 256 * unat (t - 1)"
    using be_words_update_even [of 8 Z "t - 1"] Z8 by (simp add: N_def)
  have t2: "2 \<le> unat t" using ttl by (simp add: t_def d_def word_le_nat_alt)
  have pred: "unat (t - 1) + 1 = unat t" using byte_pred [OF ttl] by (simp add: t_def d_def)
  have N': "sum_list (be_words (Z[8 := t - 1])) = N - 256" using upd pred by simp
  have "256 * unat (Z ! 8) \<le> N"
    unfolding N_def using Z8 by (intro be_words_ge_even) simp_all
  then have N512: "512 \<le> N" using t2 Z8 by simp
  have cN: "unat c = 65535 - fold16 N"
    using valid by (simp add: c_def d_def unat_full_checksum ipv4_header_def hl_def Z_def N_def)
  have cc: "unat c \<noteq> 65279"
  proof
    assume "unat c = 65279"
    then have "unat c = unat (0xFEFF :: uint16)" by simp
    then have "c = 0xFEFF" by (rule unsigned_word_eqI)
    with corner show False by (simp add: c_def d_def)
  qed
  have "unat c' = (if unat c + 256 < 65536 then unat c + 256 else unat c + 257 - 65536)"
    unfolding c'_def by (rule ttl_checksum_word)
  also have "\<dots> = 65535 - fold16 (N - 256)"
    using N512 cN cc by (rule ttl_checksum_nat)
  also have "\<dots> = unat (ipv4_full_checksum d')"
    by (simp add: unat_full_checksum Z' N')
  finally have "c' = ipv4_full_checksum d'" by (rule unsigned_word_eqI)
  with run ttl' stored show ?thesis
    by (intro exI [of _ "p\<lparr>Data := d'\<rparr>"]) (simp add: t_def d_def)
qed

theorem ModifyTTL_checksum_witness:
  "ModifyTTL (sample_packet v4_sample PacketTypeIPv4)
     = Some ((sample_packet v4_sample PacketTypeIPv4)\<lparr>Data := v4_sample_after_ttl\<rparr>, True) \<and>
   unat (v4_sample_after_ttl ! 8) + 1 = unat (v4_sample ! 8) \<and>
   header_checksum v4_sample_after_ttl = ipv4_full_checksum v4_sample_after_ttl"
proof -
  have "Type (sample_packet v4_sample PacketTypeIPv4) = PacketTypeIPv4"
    and "2 \<le> Data (sample_packet v4_sample PacketTypeIPv4) ! 8"
    and "12 \<le> ipv4_header_len (Data (sample_packet v4_sample PacketTypeIPv4))"
    and "header_checksum (Data (sample_packet v4_sample PacketTypeIPv4))
          = ipv4_full_checksum (Data (sample_packet v4_sample PacketTypeIPv4))"
    and "header_checksum (Data (sample_packet v4_sample PacketTypeIPv4)) \<noteq> 0xFEFF"
    by (simp_all add: sample_packet_def v4_sample_checksum)
      (simp_all add: v4_sample_def ipv4_header_len_def)
  from ModifyTTL_checksum [OF parse_v4_sample this]
  obtain p' where p': "ModifyTTL (sample_packet v4_sample PacketTypeIPv4) = Some (p', True)"
    "unat (Data p' ! 8) + 1 = unat (Data (sample_packet v4_sample PacketTypeIPv4) ! 8)"
    "header_checksum (Data p') = ipv4_full_checksum (Data p')"
    by blast
  from p'(1) have "p' = (sample_packet v4_sample PacketTypeIPv4)\<lparr>Data := v4_sample_after_ttl\<rparr>"
    by (simp add: ModifyTTL_v4_sample)
  with p' show ?thesis by (simp add: sample_packet_def)
qed

text \<open>
  Claim C1 as stated fails on three parsed packets with TTL 64. The first has a correct
  checksum \<open>0xFEFF\<close>: the increment stores \<open>0xFFFF\<close> where the recomputation gives
  \<open>0x0000\<close> (the two zeros of one's-complement arithmetic). The second has a stale
  checksum field, which no check of \<open>ParsePacket\<close> excludes: the increment keeps it
  stale. The third has a header-length field of 8 bytes, which the parser accepts: the
  TTL and the field at offsets 10 and 11 lie outside the header that is summed.
\<close>

theorem ModifyTTL_checksum_counterexample:
  "ParsePacket v4_corner = Inr (sample_packet v4_corner PacketTypeIPv4) \<and>
   2 \<le> v4_corner ! 8 \<and>
   header_checksum v4_corner = ipv4_full_checksum v4_corner \<and>
   ModifyTTL (sample_packet v4_corner PacketTypeIPv4)
     = Some ((sample_packet v4_corner PacketTypeIPv4)\<lparr>Data := v4_corner_after_ttl\<rparr>, True) \<and>
   header_checksum v4_corner_after_ttl = 0xFFFF \<and>
   ipv4_full_checksum v4_corner_after_ttl = 0 \<and>
   ParsePacket v4_stale = Inr (sample_packet v4_stale PacketTypeIPv4) \<and>
   2 \<le> v4_stale ! 8 \<and>
   ModifyTTL (sample_packet v4_stale PacketTypeIPv4)
     = Some ((sample_packet v4_stale PacketTypeIPv4)\<lparr>Data := v4_stale_after_ttl\<rparr>, True) \<and>
   header_checksum v4_stale_after_ttl = 0x0100 \<and>
   ipv4_full_checksum v4_stale_after_ttl = 0x6781 \<and>
   ParsePacket v4_short_header = Inr (sample_packet v4_short_header PacketTypeIPv4) \<and>
   2 \<le> v4_short_header ! 8 \<and>
   header_checksum v4_short_header = ipv4_full_checksum v4_short_header \<and>
   ModifyTTL (sample_packet v4_short_header PacketTypeIPv4)
     = Some ((sample_packet v4_short_header PacketTypeIPv4)
               \<lparr>Data := v4_short_header_after_ttl\<rparr>, True) \<and>
   header_checksum v4_short_header_after_ttl = 0xBEEB \<and>
   ipv4_full_checksum v4_short_header_after_ttl = 0xBDEB"
proof -
  have "ModifyTTL (sample_packet v4_corner PacketTypeIPv4)
     = Some ((sample_packet v4_corner PacketTypeIPv4)\<lparr>Data := v4_corner_after_ttl\<rparr>, True)"
    by (simp add: ModifyTTL_eval v4_corner_def v4_corner_after_ttl_def)
  moreover have "header_checksum v4_corner_after_ttl = 0xFFFF"
    "ipv4_full_checksum v4_corner_after_ttl = 0"
    by (simp_all add: checksum_eval v4_corner_after_ttl_def)
  moreover have "ModifyTTL (sample_packet v4_stale PacketTypeIPv4)
     = Some ((sample_packet v4_stale PacketTypeIPv4)\<lparr>Data := v4_stale_after_ttl\<rparr>, True)"
    by (simp add: ModifyTTL_eval v4_stale_def v4_stale_after_ttl_def)
  moreover have "header_checksum v4_stale_after_ttl = 0x0100"
    "ipv4_full_checksum v4_stale_after_ttl = 0x6781"
    by (simp_all add: checksum_eval v4_stale_after_ttl_def)
  moreover have "ModifyTTL (sample_packet v4_short_header PacketTypeIPv4)
     = Some ((sample_packet v4_short_header PacketTypeIPv4)
               \<lparr>Data := v4_short_header_after_ttl\<rparr>, True)"
    by (simp add: ModifyTTL_eval v4_short_header_def v4_short_header_after_ttl_def)
  moreover have "header_checksum v4_short_header_after_ttl = 0xBEEB"
    "ipv4_full_checksum v4_short_header_after_ttl = 0xBDEB"
    "header_checksum v4_short_header = ipv4_full_checksum v4_short_header"
    by (simp_all add: checksum_eval v4_short_header_after_ttl_def v4_short_header_def)
  moreover have "2 \<le> v4_corner ! 8" "2 \<le> v4_stale ! 8" "2 \<le> v4_short_header ! 8"
    by (simp_all add: v4_corner_def v4_stale_def v4_short_header_def word_le_nat_alt)
  ultimately show ?thesis
    using parse_v4_corner parse_v4_stale parse_v4_short_header v4_corner_checksum by simp
qed

lemma fold16_all_ones: "(fold16 n = 65535) = (0 < n \<and> 65535 dvd n)"
proof (cases "n = 0")
  case True
  then show ?thesis by (simp add: fold16_eq)
next
  case False
  define q where "q = (n - 1) div 65535"
  define a where "a = (n - 1) mod 65535"
  have a: "a < 65535" by (simp add: a_def)
  have n: "n = 65535 * q + a + 1" using False by (simp add: q_def a_def)
  have f: "fold16 n = a + 1" using False by (simp add: fold16_eq a_def)
  show ?thesis
  proof (cases "a = 65534")
    case True
    then have "n = 65535 * (q + 1)" using n by simp
    then have "65535 dvd n" by (metis dvd_triv_left)
    with f True False show ?thesis by simp
  next
    case False
    have "\<not> 65535 dvd n"
    proof
      assume "65535 dvd n"
      then have "n mod 65535 = 0" by simp
      moreover have "n mod 65535 = a + 1"
      proof -
        have "a + 1 < 65535" using a False by simp
        then have "(65535 * q + (a + 1)) mod 65535 = a + 1" by (rule mod_65535_decomp)
        then show ?thesis using n by (simp add: add.assoc)
      qed
      ultimately show False by simp
    qed
    with f False show ?thesis by simp
  qed
qed

lemma header_after_ttl_full:
  "take n (PutUint16 (d[8 := x]) 10 v)
     = (take n d)[8 := x, 10 := ucast (drop_bit 8 v), 11 := ucast v]"
  by (simp add: PutUint16_def take_update_swap)

text \<open>
  What the increment keeps in every case, the corner \<open>0xFEFF\<close> included: on a parsed
  IPv4 packet with TTL at least 2 whose header-length field covers the checksum field, a
  header that passes the receiver's check (the one's-complement sum over the whole header
  is \<open>0xFFFF\<close>) passes it again after \<open>ModifyTTL\<close>.
\<close>

theorem ModifyTTL_keeps_checksum_valid:
  assumes parse: "ParsePacket data = Inr p"
    and v4: "Type p = PacketTypeIPv4"
    and ttl: "2 \<le> Data p ! 8"
    and ihl: "12 \<le> ipv4_header_len (Data p)"
    and valid: "ipv4_checksum_verifies (Data p)"
  shows "\<exists>p'. ModifyTTL p = Some (p', True) \<and> ipv4_checksum_verifies (Data p')"
proof -
  define d where "d = Data p"
  define t where "t = d ! 8"
  define c where "c = header_checksum d"
  define c' where "c' = (let x = c + 0x0100 in if x \<le> 0x00FF then x + 1 else x)"
  define d' where "d' = PutUint16 (d[8 := t - 1]) 10 c'"
  define hl where "hl = ipv4_header_len d"
  define H where "H = take hl d"
  define H1 where "H1 = H[8 := t - 1]"
  define H2 where "H2 = H1[10 := ucast (drop_bit 8 c')]"
  define H3 where "H3 = H2[11 := ucast c']"
  define T where "T = sum_list (be_words H)"
  from ParsePacket_Inr [OF parse] v4
  have len: "20 \<le> length d" "hl \<le> length d" by (auto simp: d_def hl_def)
  have hl: "12 \<le> hl" using ihl by (simp add: hl_def d_def)
  have lenH: "12 \<le> length H" using len hl by (simp add: H_def)
  have nle: "\<not> t \<le> 1" using ttl by (simp add: t_def d_def word_le_nat_alt)
  have run: "ModifyTTL p = Some (p\<lparr>Data := d'\<rparr>, True)"
    using v4 len nle
    by (simp add: ModifyTTL_def Let_def d'_def c'_def c_def header_checksum_def
        d_def [symmetric] t_def [symmetric])
  have hl': "ipv4_header_len d' = hl"
    using len by (simp add: ipv4_header_len_def d'_def PutUint16_def hl_def)
  have "ipv4_header d' = take hl (PutUint16 (d[8 := t - 1]) 10 c')"
    by (simp add: ipv4_header_def hl') (simp add: d'_def)
  then have H': "ipv4_header d' = H3"
    by (simp add: header_after_ttl_full H3_def H2_def H1_def H_def)
  have Hn: "H ! 8 = t" "H ! 10 = d ! 10" "H ! 11 = d ! 11"
    using hl by (simp_all add: H_def t_def)
  have pred: "unat (t - 1) + 1 = unat t" using byte_pred [OF ttl] by (simp add: t_def d_def)
  have t2: "2 \<le> unat t" using ttl by (simp add: t_def d_def word_le_nat_alt)
  have s1: "sum_list (be_words H1) + 256 * unat t = T + 256 * unat (t - 1)"
    using be_words_update_even [of 8 H "t - 1"] lenH Hn by (simp add: H1_def T_def)
  have s2: "sum_list (be_words H2) + 256 * unat (d ! 10)
              = sum_list (be_words H1) + 256 * unat (ucast (drop_bit 8 c') :: byte)"
    using be_words_update_even [of 10 H1 "ucast (drop_bit 8 c')"] lenH Hn
    by (simp add: H2_def H1_def)
  have s3: "sum_list (be_words H3) + unat (d ! 11)
              = sum_list (be_words H2) + unat (ucast c' :: byte)"
    using be_words_update_odd [of 11 H2 "ucast c'"] lenH Hn
    by (simp add: H3_def H2_def H1_def)
  have cu: "unat c = 256 * unat (d ! 10) + unat (d ! 11)"
    by (simp add: c_def header_checksum_def Uint16_unat)
  have cu': "unat c' = 256 * unat (ucast (drop_bit 8 c') :: byte) + unat (ucast c' :: byte)"
    by (simp add: PutUint16_bytes)
  define T' where "T' = sum_list (be_words H3)"
  have bal: "T' + unat c + 256 = T + unat c'"
    using s1 s2 s3 cu cu' pred unfolding T'_def by linarith
  have "H3 ! 8 = t - 1" using lenH by (simp add: H3_def H2_def H1_def)
  moreover have "256 * unat (H3 ! 8) \<le> T'"
    unfolding T'_def using lenH by (intro be_words_ge_even) (simp_all add: H3_def H2_def H1_def)
  ultimately have pos: "0 < T'" using pred t2 by simp
  from valid have T: "0 < T" "65535 dvd T"
    by (simp_all add: ipv4_checksum_verifies_def fold16_all_ones ipv4_header_def
        d_def [symmetric] hl_def [symmetric] H_def [symmetric] T_def [symmetric])
  have step: "unat c' = (if unat c + 256 < 65536 then unat c + 256 else unat c + 257 - 65536)"
    unfolding c'_def by (rule ttl_checksum_word)
  have "65535 dvd T'"
  proof (cases "unat c + 256 < 65536")
    case True
    with step bal have "T' = T" by simp
    with T show ?thesis by simp
  next
    case False
    with step bal have "T = T' + 65535" by simp
    with T(2) show ?thesis by (simp add: dvd_add_left_iff)
  qed
  with pos have "ipv4_checksum_verifies d'"
    by (simp add: ipv4_checksum_verifies_def fold16_all_ones H' T'_def)
  with run show ?thesis by (intro exI [of _ "p\<lparr>Data := d'\<rparr>"]) simp
qed

theorem ModifyTTL_keeps_checksum_valid_witness:
  "ipv4_checksum_verifies v4_corner \<and>
   ModifyTTL (sample_packet v4_corner PacketTypeIPv4)
     = Some ((sample_packet v4_corner PacketTypeIPv4)\<lparr>Data := v4_corner_after_ttl\<rparr>, True) \<and>
   ipv4_checksum_verifies v4_corner_after_ttl"
proof -
  have run: "ModifyTTL (sample_packet v4_corner PacketTypeIPv4)
     = Some ((sample_packet v4_corner PacketTypeIPv4)\<lparr>Data := v4_corner_after_ttl\<rparr>, True)"
    by (simp add: ModifyTTL_eval v4_corner_def v4_corner_after_ttl_def)
  have ok: "ipv4_checksum_verifies v4_corner"
    by (simp add: checksum_eval v4_corner_def)
  have "Type (sample_packet v4_corner PacketTypeIPv4) = PacketTypeIPv4"
    and "2 \<le> Data (sample_packet v4_corner PacketTypeIPv4) ! 8"
    and "12 \<le> ipv4_header_len (Data (sample_packet v4_corner PacketTypeIPv4))"
    and "ipv4_checksum_verifies (Data (sample_packet v4_corner PacketTypeIPv4))"
    using ok by (simp_all add: sample_packet_def)
      (simp_all add: v4_corner_def ipv4_header_len_def word_le_nat_alt)
  from ModifyTTL_keeps_checksum_valid [OF parse_v4_corner this]
  obtain p' where p': "ModifyTTL (sample_packet v4_corner PacketTypeIPv4) = Some (p', True)"
    "ipv4_checksum_verifies (Data p')"
    by blast
  from p'(1) have "p' = (sample_packet v4_corner PacketTypeIPv4)\<lparr>Data := v4_corner_after_ttl\<rparr>"
    by (simp add: run)
  with p' ok run show ?thesis by simp
qed

subsection \<open>Address replacement and the checksum\<close>

text \<open>
  Claim C2 at a concrete input. The sample header has a correct checksum. After
  \<open>ReplaceSourceAddress\<close> with 10.0.0.2 the stored checksum is \<open>0x667F\<close> where the
  recomputation gives \<open>0x6680\<close>, and the header no longer passes the receiver's check;
  the same happens after \<open>ReplaceDestinationAddress\<close> with 10.0.0.100. The final
  addition of \<open>recalculateIPv4Checksum\<close> is truncated to 16 bits and its carry is lost.
\<close>

theorem Replace_address_checksum_wrong:
  "ParsePacket v4_sample = Inr (sample_packet v4_sample PacketTypeIPv4) \<and>
   header_checksum v4_sample = ipv4_full_checksum v4_sample \<and>
   ReplaceSourceAddress (sample_packet v4_sample PacketTypeIPv4) [10, 0, 0, 2]
     = Some ((sample_packet v4_sample PacketTypeIPv4)
               \<lparr>Data := v4_sample_after_nat, Source := [10, 0, 0, 2]\<rparr>, None) \<and>
   header_checksum v4_sample_after_nat = 0x667F \<and>
   ipv4_full_checksum v4_sample_after_nat = 0x6680 \<and>
   \<not> ipv4_checksum_verifies v4_sample_after_nat \<and>
   ReplaceDestinationAddress (sample_packet v4_sample PacketTypeIPv4) [10, 0, 0, 100]
     = Some ((sample_packet v4_sample PacketTypeIPv4)
               \<lparr>Data := v4_sample_after_dnat, Destination := [10, 0, 0, 100]\<rparr>, None) \<and>
   header_checksum v4_sample_after_dnat = 0x667F \<and>
   ipv4_full_checksum v4_sample_after_dnat = 0x6680 \<and>
   \<not> ipv4_checksum_verifies v4_sample_after_dnat"
proof -
  have "ReplaceSourceAddress (sample_packet v4_sample PacketTypeIPv4) [10, 0, 0, 2]
     = Some ((sample_packet v4_sample PacketTypeIPv4)
               \<lparr>Data := v4_sample_after_nat, Source := [10, 0, 0, 2]\<rparr>, None)"
    by (simp add: ReplaceSourceAddress_def recalculateIPv4Checksum_def copy_slice_def
        sample_packet_def v4_sample_def v4_sample_after_nat_def IPv4len_def
        PutUint16_def Uint16_def Let_def)
  moreover have "ReplaceDestinationAddress (sample_packet v4_sample PacketTypeIPv4) [10, 0, 0, 100]
     = Some ((sample_packet v4_sample PacketTypeIPv4)
               \<lparr>Data := v4_sample_after_dnat, Destination := [10, 0, 0, 100]\<rparr>, None)"
    by (simp add: ReplaceDestinationAddress_def recalculateIPv4Checksum_def copy_slice_def
        sample_packet_def v4_sample_def v4_sample_after_dnat_def IPv4len_def
        PutUint16_def Uint16_def Let_def)
  moreover have "header_checksum v4_sample_after_nat = 0x667F"
    "ipv4_full_checksum v4_sample_after_nat = 0x6680"
    "\<not> ipv4_checksum_verifies v4_sample_after_nat"
    by (simp_all add: checksum_eval v4_sample_after_nat_def)
  moreover have "header_checksum v4_sample_after_dnat = 0x667F"
    "ipv4_full_checksum v4_sample_after_dnat = 0x6680"
    "\<not> ipv4_checksum_verifies v4_sample_after_dnat"
    by (simp_all add: checksum_eval v4_sample_after_dnat_def)
  ultimately show ?thesis
    using parse_v4_sample v4_sample_checksum by simp
qed

lemma xor_ffff_add: "(ucast (w :: uint16) XOR 0xFFFF) + ucast w = (0xFFFF :: uint32)"
proof -
  have m: "(0xFFFF :: uint32) = mask 16" by (simp add: mask_eq_exp_minus_1)
  have "(ucast w XOR mask 16) + ucast w = ((ucast w XOR mask 16) OR ucast w :: uint32)"
    by (rule disjunctive_add) (auto simp: bit_simps dest: bit_imp_le_length)
  also have "\<dots> = mask 16"
    by (rule bit_word_eqI) (auto simp: bit_simps dest: bit_imp_le_length)
  finally show ?thesis by (simp only: m)
qed

lemma adjustment_loop_same:
  "adjustment_loop [a, b, c, d] [a, b, c, d] 0 = Some 0x1FFFE"
proof -
  have "adjustment_loop [a, b, c, d] [a, b, c, d] 0
      = Some ((ucast (Uint16 a b) + (ucast (Uint16 a b) XOR 0xFFFF))
            + (ucast (Uint16 c d) + (ucast (Uint16 c d) XOR 0xFFFF)))"
    by (simp add: add.assoc)
  also have "\<dots> = Some (0xFFFF + 0xFFFF)"
    by (simp only: add.commute [of "ucast _" "_ XOR _"] xor_ffff_add)
  finally show ?thesis by simp
qed

lemma minus_one_16: "(ucast ((0xFFFF :: uint32) + ucast (c :: uint16)) :: uint16) = c - 1"
proof (rule unsigned_word_eqI [where ?'a = nat])
  have c: "unat c < 65536" using unsigned_less [of c, where ?'a = nat] by simp
  have "unat ((0xFFFF :: uint32) + ucast c) = 65535 + unat c"
    using c by (simp add: unat_word_ariths unsigned_ucast_eq take_bit_eq_mod)
  then have l: "unat (ucast ((0xFFFF :: uint32) + ucast c) :: uint16) = (65535 + unat c) mod 65536"
    by (simp add: unsigned_ucast_eq take_bit_eq_mod)
  have "c - 1 = c + 0xFFFF" by simp
  then have "unat (c - 1) = (unat c + 65535) mod 65536"
    by (simp only: unat_word_ariths) simp
  with l show "unat (ucast ((0xFFFF :: uint32) + ucast c) :: uint16) = unat (c - 1)"
    by (simp add: add.commute)
qed


lemma copy_slice_same:
  assumes "lo + n \<le> length d"
  shows "copy_slice d lo (lo + n) (take n (drop lo d)) = d"
proof -
  have "take lo d @ take n (drop lo d) @ drop (lo + n) d
      = take lo d @ (take n (drop lo d) @ drop n (drop lo d))"
    by (simp add: add.commute)
  also have "\<dots> = d" by (simp only: append_take_drop_id)
  finally show ?thesis using assms by (simp add: copy_slice_def Let_def min_def)
qed

lemma recalculate_same:
  assumes "12 \<le> length d" "length addr = 4"
  shows "recalculateIPv4Checksum d addr addr = Some (PutUint16 d 10 (header_checksum d - 1))"
proof -
  from assms(2) obtain a b c e where "addr = [a, b, c, e]" by (auto dest: length4)
  then show ?thesis using assms(1)
    by (simp add: recalculateIPv4Checksum_def adjustment_loop_same header_checksum_def
        minus_one_16 Let_def del: adjustment_loop.simps)
qed

lemma full_checksum_ignores_stored:
  "ipv4_full_checksum (PutUint16 d 10 v) = ipv4_full_checksum d"
proof -
  have "ipv4_header_len (PutUint16 d 10 v) = ipv4_header_len d"
    by (simp add: ipv4_header_len_def PutUint16_def)
  moreover have "(take n (PutUint16 d 10 v))[10 := 0, 11 := 0] = (take n d)[10 := 0, 11 := 0]" for n
    by (rule nth_equalityI) (simp_all add: PutUint16_def take_update_swap nth_update_if)
  ultimately show ?thesis by (simp add: ipv4_full_checksum_def ipv4_header_def)
qed

lemma header_checksum_PutUint16:
  "12 \<le> length d \<Longrightarrow> header_checksum (PutUint16 d 10 v) = v"
  by (simp add: header_checksum_def PutUint16_def Uint16_PutUint16)

text \<open>
  The loss shows on every parsed IPv4 packet: replacing the source address by the address
  the header already holds leaves every byte but the checksum field as it was, and stores
  the old checksum minus one; a checksum that was correct is wrong afterwards.
\<close>

theorem Replace_by_same_address_changes_checksum:
  assumes parse: "ParsePacket data = Inr p"
    and v4: "Type p = PacketTypeIPv4"
  shows "\<exists>d'. ReplaceSourceAddress p (take 4 (drop 12 (Data p)))
               = Some (p\<lparr>Data := d', Source := take 4 (drop 12 (Data p))\<rparr>, None) \<and>
              d' = PutUint16 (Data p) 10 (header_checksum (Data p) - 1) \<and>
              header_checksum d' = header_checksum (Data p) - 1 \<and>
              ipv4_full_checksum d' = ipv4_full_checksum (Data p) \<and>
              (header_checksum (Data p) = ipv4_full_checksum (Data p) \<longrightarrow>
                 header_checksum d' \<noteq> ipv4_full_checksum d')"
proof -
  define d where "d = Data p"
  define d' where "d' = PutUint16 d 10 (header_checksum d - 1)"
  from ParsePacket_Inr [OF parse] v4 have len: "20 \<le> length d" by (auto simp: d_def)
  have same: "copy_slice d 12 16 (take 4 (drop 12 d)) = d"
    using copy_slice_same [of 12 4 d] len by simp
  have "recalculateIPv4Checksum d (take 4 (drop 12 d)) (take 4 (drop 12 d)) = Some d'"
    unfolding d'_def using len by (intro recalculate_same) simp_all
  then have run: "ReplaceSourceAddress p (take 4 (drop 12 d))
               = Some (p\<lparr>Data := d', Source := take 4 (drop 12 d)\<rparr>, None)"
    using v4 len same
    by (simp add: ReplaceSourceAddress_def IPv4len_def Let_def d_def [symmetric])
  have stored: "header_checksum d' = header_checksum d - 1"
    using len by (simp add: d'_def header_checksum_PutUint16)
  have full: "ipv4_full_checksum d' = ipv4_full_checksum d"
    by (simp add: d'_def full_checksum_ignores_stored)
  have "header_checksum d - 1 \<noteq> header_checksum d" by simp
  with stored full
  have ne: "header_checksum d = ipv4_full_checksum d \<longrightarrow>
      header_checksum d' \<noteq> ipv4_full_checksum d'"
    by simp
  have def: "d' = PutUint16 d 10 (header_checksum d - 1)" by (simp add: d'_def)
  from run def stored full ne show ?thesis
    unfolding d_def by blast
qed

theorem Replace_by_same_address_changes_checksum_witness:
  "header_checksum v4_sample = ipv4_full_checksum v4_sample \<and>
   ReplaceSourceAddress (sample_packet v4_sample PacketTypeIPv4) [10, 0, 0, 1]
     = Some ((sample_packet v4_sample PacketTypeIPv4)
               \<lparr>Data := v4_sample_after_self, Source := [10, 0, 0, 1]\<rparr>, None) \<and>
   header_checksum v4_sample_after_self = 0x6680 \<and>
   ipv4_full_checksum v4_sample_after_self = 0x6681"
proof -
  have src: "take 4 (drop 12 (Data (sample_packet v4_sample PacketTypeIPv4))) = [10, 0, 0, 1]"
    by (simp add: sample_packet_def v4_sample_def)
  have d': "PutUint16 (Data (sample_packet v4_sample PacketTypeIPv4)) 10
              (header_checksum (Data (sample_packet v4_sample PacketTypeIPv4)) - 1)
            = v4_sample_after_self"
    by (simp add: sample_packet_def v4_sample_checksum)
      (simp add: v4_sample_def v4_sample_after_self_def PutUint16_def)
  have v4: "Type (sample_packet v4_sample PacketTypeIPv4) = PacketTypeIPv4"
    by (simp add: sample_packet_def)
  from Replace_by_same_address_changes_checksum [OF parse_v4_sample v4]
  obtain x where x: "ReplaceSourceAddress (sample_packet v4_sample PacketTypeIPv4) [10, 0, 0, 1]
        = Some ((sample_packet v4_sample PacketTypeIPv4)\<lparr>Data := x, Source := [10, 0, 0, 1]\<rparr>, None)"
      "x = v4_sample_after_self"
      "header_checksum x = header_checksum (Data (sample_packet v4_sample PacketTypeIPv4)) - 1"
      "ipv4_full_checksum x = ipv4_full_checksum (Data (sample_packet v4_sample PacketTypeIPv4))"
    unfolding src d' by blast
  then show ?thesis
    by (simp add: v4_sample_checksum sample_packet_def)
qed

end
